theory Spec2Isabelle
  imports Complex_Main "HOL-Library.Log_Nat"
begin

section \<open>Data model of the image-to-PDF converter\<close>

text \<open>
  The component \<^verbatim>\<open>ImageToPdfConverter\<close> of
  \<^verbatim>\<open>src/components/image-to-pdf-converter.tsx\<close> keeps a list of \<^verbatim>\<open>ImageFile\<close>
  records, a page size key and a margin percentage. JavaScript numbers are modelled as
  \<open>real\<close> (the rotation, which only ever holds whole degrees, as \<open>int\<close>). The geometry
  of a placement is given twice: in exact arithmetic (\<open>computePlacement\<close>) and with every
  operation rounded to a double (\<open>computePlacement64\<close>). The browser's \<^verbatim>\<open>File\<close> object
  is a type parameter.
\<close>

record 'f ImageFile =
  image_id :: string
  file_obj :: 'f
  preview :: string
  rotation :: int

record PageSize =
  name :: string
  width :: real
  height :: real

datatype Direction = clockwise | counterclockwise

text \<open>The table \<^verbatim>\<open>pageSizes\<close>, a dictionary from key to page size (millimetres).\<close>

definition pageSizes :: "string \<rightharpoonup> PageSize" where
  "pageSizes =
    [''letter'' \<mapsto> \<lparr>name = ''Letter (8.5\" x 11\")'', width = 215.9, height = 279.4\<rparr>,
     ''legal'' \<mapsto> \<lparr>name = ''Legal (8.5\" x 14\")'', width = 215.9, height = 355.6\<rparr>,
     ''tabloid'' \<mapsto> \<lparr>name = ''Tabloid (11\" x 17\")'', width = 279.4, height = 431.8\<rparr>,
     ''a4'' \<mapsto> \<lparr>name = ''A4 (210 x 297 mm)'', width = 210, height = 297\<rparr>,
     ''a3'' \<mapsto> \<lparr>name = ''A3 (297 x 420 mm)'', width = 297, height = 420\<rparr>]"

text \<open>The values of \<^verbatim>\<open>marginOptions\<close>: the margin as a percentage of the page.\<close>

definition marginOptions :: "real list" where
  "marginOptions = [0, 2, 5, 10, 15, 20]"

section \<open>Editing the image list\<close>

text \<open>
  \<^verbatim>\<open>onDrop\<close> appends one record per accepted file. The identifier comes from
  \<^verbatim>\<open>Math.random()\<close> and the preview from \<^verbatim>\<open>URL.createObjectURL\<close>; both are
  supplied by the environment, so the model receives them with the file.
\<close>

definition onDrop :: "(string \<times> 'f \<times> string) list \<Rightarrow> 'f ImageFile list \<Rightarrow> 'f ImageFile list" where
  "onDrop acceptedFiles prev =
     prev @ map (\<lambda>(new_id, f, url). \<lparr>image_id = new_id, file_obj = f, preview = url, rotation = 0\<rparr>)
              acceptedFiles"

text \<open>
  JavaScript's \<^verbatim>\<open>%\<close> is the truncated remainder: the result has the sign of the
  dividend.
\<close>

definition js_rem :: "int \<Rightarrow> int \<Rightarrow> int" where
  "js_rem a b = sgn a * (\<bar>a\<bar> mod \<bar>b\<bar>)"

definition rotateImage :: "string \<Rightarrow> Direction \<Rightarrow> 'f ImageFile list \<Rightarrow> 'f ImageFile list" where
  "rotateImage i direction images =
     map (\<lambda>img.
            if image_id img = i
            then (let change = (if direction = clockwise then 90 else - 90)
                  in img\<lparr>rotation := js_rem (rotation img + change + 360) 360\<rparr>)
            else img)
         images"

definition removeImage :: "string \<Rightarrow> 'f ImageFile list \<Rightarrow> 'f ImageFile list" where
  "removeImage i images = filter (\<lambda>img. image_id img \<noteq> i) images"

definition clearAllImages :: "'f ImageFile list \<Rightarrow> 'f ImageFile list" where
  "clearAllImages images = []"

text \<open>
  The user's actions on the list, and the list they lead to from a given one. The
  component starts with the empty list (\<^verbatim>\<open>useState<ImageFile[]>([])\<close>).
\<close>

datatype 'f Action =
    Drop "(string \<times> 'f \<times> string) list"
  | Rotate string Direction
  | Remove string
  | ClearAll

fun perform :: "'f ImageFile list \<Rightarrow> 'f Action \<Rightarrow> 'f ImageFile list" where
  "perform images (Drop acceptedFiles) = onDrop acceptedFiles images"
| "perform images (Rotate i direction) = rotateImage i direction images"
| "perform images (Remove i) = removeImage i images"
| "perform images ClearAll = clearAllImages images"

definition performAll :: "'f Action list \<Rightarrow> 'f ImageFile list \<Rightarrow> 'f ImageFile list" where
  "performAll actions images = foldl perform images actions"

section \<open>Placement of one image on a page\<close>

text \<open>
  The geometry computed in the \<^verbatim>\<open>img.onload\<close> handler of \<^verbatim>\<open>convertToPdf\<close>
  (the specification calls it \<open>computePlacement\<close>). The local variables keep the names
  of the source; \<open>cw\<close> and \<open>ch\<close> are \<^verbatim>\<open>width\<close> and \<^verbatim>\<open>height\<close> after the swap,
  which are also the size of the canvas the rotated image is drawn on. Division is the
  division of the reals: the model is the code's wherever the image has non-zero sides
  (JavaScript yields \<^verbatim>\<open>Infinity\<close> or \<^verbatim>\<open>NaN\<close> otherwise).
\<close>

record Placement =
  rotatedWidth :: real
  rotatedHeight :: real
  availW :: real
  availH :: real
  scale :: real
  scaledWidth :: real
  scaledHeight :: real
  offsetX :: real
  offsetY :: real

definition computePlacement :: "real \<Rightarrow> real \<Rightarrow> int \<Rightarrow> real \<Rightarrow> real \<Rightarrow> real \<Rightarrow> Placement" where
  "computePlacement img_width img_height rot pageWidth pageHeight marginSize =
    (let (cw, ch) = (if rot = 90 \<or> rot = 270 then (img_height, img_width)
                     else (img_width, img_height));
         marginFactor = marginSize / 100;
         availableWidth = pageWidth * (1 - marginFactor * 2);
         availableHeight = pageHeight * (1 - marginFactor * 2);
         ratio = min (availableWidth / cw) (availableHeight / ch);
         imgWidth = cw * ratio;
         imgHeight = ch * ratio;
         px = (pageWidth - imgWidth) / 2;
         py = (pageHeight - imgHeight) / 2
     in \<lparr>rotatedWidth = cw, rotatedHeight = ch,
         availW = availableWidth, availH = availableHeight,
         scale = ratio, scaledWidth = imgWidth, scaledHeight = imgHeight,
         offsetX = px, offsetY = py\<rparr>)"

section \<open>The placement in double precision\<close>

text \<open>
  A JavaScript number is an IEEE 754 double, and every arithmetic operation returns the
  double nearest to the exact result, a tie going to the even significand. \<open>round64\<close>
  is that rounding, for a significand of 53 bits and an exponent without bounds: \<open>expo x\<close>
  is the exponent \<open>e\<close> with \<open>2 ^ e \<le> x < 2 ^ (e + 1)\<close>, the doubles between these powers
  are the multiples of \<open>2 ^ (e - 52)\<close>, and \<open>rne\<close> rounds to the nearest integer, a tie
  to the even one. It is the rounding of the code wherever the exact result is zero or
  has a magnitude between \<open>2 ^ - 1022\<close> and \<open>2 ^ 1023\<close>, so that no overflow and no
  subnormal number occurs.
\<close>

definition expo :: "real \<Rightarrow> int" where
  "expo x = (if 1 \<le> x then bitlen \<lfloor>x\<rfloor> - 1 else - bitlen (\<lceil>1 / x\<rceil> - 1))"

definition rne :: "real \<Rightarrow> int" where
  "rne q = (let f = \<lfloor>q\<rfloor>; r = q - of_int f
            in if r < 1 / 2 then f else if 1 / 2 < r then f + 1
               else if even f then f else f + 1)"

definition round64 :: "real \<Rightarrow> real" where
  "round64 x =
     (if x = 0 then 0
      else sgn x * (of_int (rne (\<bar>x\<bar> / 2 powi (expo \<bar>x\<bar> - 52))) * 2 powi (expo \<bar>x\<bar> - 52)))"

text \<open>
  The same computation as \<open>computePlacement\<close>, operation for operation, each result
  rounded. \<^verbatim>\<open>Math.min\<close> returns one of its arguments and rounds nothing. The arguments
  stand for doubles; for image sides between 1 and \<open>2 ^ 32\<close> (\<^verbatim>\<open>img.width\<close> is an
  unsigned 32-bit integer), page sides between 1 and 10000 and a margin among the margin
  options, every intermediate result is zero or of a magnitude between \<open>2 ^ - 85\<close> and
  \<open>2 ^ 14\<close>, where \<open>round64\<close> is the rounding of the code.
\<close>

definition computePlacement64 :: "real \<Rightarrow> real \<Rightarrow> int \<Rightarrow> real \<Rightarrow> real \<Rightarrow> real \<Rightarrow> Placement" where
  "computePlacement64 img_width img_height rot pageWidth pageHeight marginSize =
    (let (cw, ch) = (if rot = 90 \<or> rot = 270 then (img_height, img_width)
                     else (img_width, img_height));
         marginFactor = round64 (marginSize / 100);
         availableWidth = round64 (pageWidth * round64 (1 - round64 (marginFactor * 2)));
         availableHeight = round64 (pageHeight * round64 (1 - round64 (marginFactor * 2)));
         ratio = min (round64 (availableWidth / cw)) (round64 (availableHeight / ch));
         imgWidth = round64 (cw * ratio);
         imgHeight = round64 (ch * ratio);
         px = round64 (round64 (pageWidth - imgWidth) / 2);
         py = round64 (round64 (pageHeight - imgHeight) / 2)
     in \<lparr>rotatedWidth = cw, rotatedHeight = ch,
         availW = availableWidth, availH = availableHeight,
         scale = ratio, scaledWidth = imgWidth, scaledHeight = imgHeight,
         offsetX = px, offsetY = py\<rparr>)"

section \<open>Composing the document\<close>

text \<open>
  \<^verbatim>\<open>convertToPdf\<close> talks to three collaborators: the component's own state setters,
  the browser (a canvas and an image decoder per iteration) and the jsPDF document. The
  model records every call it makes to the setters and to jsPDF, in order. The image
  data handed to jsPDF is \<^verbatim>\<open>canvas.toDataURL\<close>: the source drawn, rotated about the
  centre, on a canvas of the swapped size. The rectangle of a placement is recorded in
  exact arithmetic.
\<close>

record RenderedBitmap =
  source :: string
  angle :: int
  canvasWidth :: real
  canvasHeight :: real

datatype Call =
    SetConverting bool
  | SetProgress real
  | NewDocument real real
  | AddPage real real
  | AddImage RenderedBitmap real real real real
  | Save string

text \<open>
  What the browser does in the \<open>i\<close>-th iteration: \<open>getContext i\<close> tells whether
  \<^verbatim>\<open>canvas.getContext("2d")\<close> is non-null, and \<open>loadImage url\<close> is the intrinsic
  \<^verbatim>\<open>img.width\<close> and \<^verbatim>\<open>img.height\<close> once \<^verbatim>\<open>onload\<close> fires, or \<open>None\<close> when it
  never fires (no \<^verbatim>\<open>onerror\<close> handler is installed, so the awaited promise is then
  never resolved).
\<close>

record Browser =
  getContext :: "nat \<Rightarrow> bool"
  loadImage :: "string \<Rightarrow> (real \<times> real) option"

text \<open>
  The document jsPDF holds after a sequence of calls: the constructor makes the first
  page, \<^verbatim>\<open>addPage\<close> appends a page and makes it current, \<^verbatim>\<open>addImage\<close> draws on
  the current page. \<^verbatim>\<open>pdf.internal.pageSize\<close> is the format of the current page; a
  portrait format whose width does not exceed its height, as every entry of
  \<open>pageSizes\<close> is, is kept as given.
\<close>

record PlacedImage =
  imgData :: RenderedBitmap
  atX :: real
  atY :: real
  drawnWidth :: real
  drawnHeight :: real

record Page =
  pageFormat :: "real \<times> real"
  content :: "PlacedImage list"

fun applyCall :: "Page list \<Rightarrow> Call \<Rightarrow> Page list" where
  "applyCall doc (NewDocument w h) = [\<lparr>pageFormat = (w, h), content = []\<rparr>]"
| "applyCall doc (AddPage w h) = doc @ [\<lparr>pageFormat = (w, h), content = []\<rparr>]"
| "applyCall doc (AddImage d px py w h) =
     (case rev doc of
        [] \<Rightarrow> []
      | p # earlier \<Rightarrow>
          rev earlier @
          [p\<lparr>content := content p @
               [\<lparr>imgData = d, atX = px, atY = py, drawnWidth = w, drawnHeight = h\<rparr>]\<rparr>])"
| "applyCall doc (SetConverting b) = doc"
| "applyCall doc (SetProgress v) = doc"
| "applyCall doc (Save filename) = doc"

definition pagesOf :: "Call list \<Rightarrow> Page list" where
  "pagesOf calls = foldl applyCall [] calls"

definition currentPageSize :: "Call list \<Rightarrow> real \<times> real" where
  "currentPageSize calls = (case rev (pagesOf calls) of [] \<Rightarrow> (0, 0) | p # earlier \<Rightarrow> pageFormat p)"

text \<open>
  A run ends in one of four ways: it returns (\<open>Finished\<close>), it waits for ever on an
  image that never loads (\<open>Stalled\<close>), it throws a \<^verbatim>\<open>TypeError\<close> because the page
  size key is not in the table (\<open>Threw\<close>), or an image loads with a side that is not
  positive (\<open>Degenerate\<close>): the quotients of the code are then \<^verbatim>\<open>Infinity\<close> or
  \<^verbatim>\<open>NaN\<close>, which are no real numbers, and what jsPDF does with such a rectangle is
  not code of this repository, so the run is followed no further. Each outcome carries
  the calls made so far.
\<close>

datatype Outcome =
    Finished "Call list"
  | Stalled "Call list"
  | Threw "Call list"
  | Degenerate "Call list"

fun finished :: "Outcome \<Rightarrow> bool" where
  "finished (Finished calls) = True"
| "finished (Stalled calls) = False"
| "finished (Threw calls) = False"
| "finished (Degenerate calls) = False"

fun callsOf :: "Outcome \<Rightarrow> Call list" where
  "callsOf (Finished calls) = calls"
| "callsOf (Stalled calls) = calls"
| "callsOf (Threw calls) = calls"
| "callsOf (Degenerate calls) = calls"

text \<open>
  The \<^verbatim>\<open>for\<close> loop, from index \<open>i\<close> on: the images not yet visited, the counter
  \<^verbatim>\<open>processedImages\<close> and the calls made so far are its state. After the last image
  the document is saved and \<^verbatim>\<open>converting\<close> is reset. The test on the sides of the
  loaded image is not a test of the code: it marks where the real numbers stop being the
  numbers of the code.
\<close>

fun forLoop ::
  "Browser \<Rightarrow> PageSize \<Rightarrow> real \<Rightarrow> nat \<Rightarrow> nat \<Rightarrow> 'f ImageFile list \<Rightarrow> nat \<Rightarrow> Call list \<Rightarrow> Outcome"
where
  "forLoop env selectedPageSize marginSize totalImages i [] processedImages calls =
     Finished (calls @ [Save ''converted-images.pdf'', SetConverting False])"
| "forLoop env selectedPageSize marginSize totalImages i (img # rest) processedImages calls =
     (if \<not> getContext env i
      then forLoop env selectedPageSize marginSize totalImages (i + 1) rest processedImages calls
      else
        (case loadImage env (preview img) of
           None \<Rightarrow> Stalled calls
         | Some (img_width, img_height) \<Rightarrow>
             (let calls1 = (if 0 < i
                            then calls @ [AddPage (width selectedPageSize) (height selectedPageSize)]
                            else calls)
              in if img_width \<le> 0 \<or> img_height \<le> 0 then Degenerate calls1
                 else
                   (let (pageWidth, pageHeight) = currentPageSize calls1;
                        p = computePlacement img_width img_height (rotation img)
                              pageWidth pageHeight marginSize;
                        d = \<lparr>source = preview img, angle = rotation img,
                             canvasWidth = rotatedWidth p, canvasHeight = rotatedHeight p\<rparr>;
                        calls2 = calls1 @
                          [AddImage d (offsetX p) (offsetY p) (scaledWidth p) (scaledHeight p)];
                        processed = processedImages + 1;
                        calls3 = calls2 @ [SetProgress (real processed / real totalImages * 100)]
                    in forLoop env selectedPageSize marginSize totalImages (i + 1) rest
                         processed calls3))))"

definition convertToPdf :: "Browser \<Rightarrow> string \<Rightarrow> real \<Rightarrow> 'f ImageFile list \<Rightarrow> Outcome" where
  "convertToPdf env pageSize marginSize images =
     (if length images = 0 then Finished []
      else
        (let calls = [SetConverting True, SetProgress 0]
         in case pageSizes pageSize of
              None \<Rightarrow> Threw calls
            | Some selectedPageSize \<Rightarrow>
                forLoop env selectedPageSize marginSize (length images) 0 images 0
                  (calls @
                   [NewDocument (width selectedPageSize) (height selectedPageSize)])))"

text \<open>Readings of a run: the values passed to \<^verbatim>\<open>setProgress\<close>, and the pages appended.\<close>

fun progressOf :: "Call list \<Rightarrow> real list" where
  "progressOf [] = []"
| "progressOf (SetProgress v # calls) = v # progressOf calls"
| "progressOf (c # calls) = progressOf calls"

fun addedPages :: "Call list \<Rightarrow> nat" where
  "addedPages [] = 0"
| "addedPages (AddPage w h # calls) = Suc (addedPages calls)"
| "addedPages (c # calls) = addedPages calls"

text \<open>
  The placements and the progress reports of a run, in the order of the calls: a
  placement is named by the source of the image drawn.
\<close>

datatype Milestone = Placed string | Reported real

fun milestones :: "Call list \<Rightarrow> Milestone list" where
  "milestones [] = []"
| "milestones (AddImage d px py w h # calls) = Placed (source d) # milestones calls"
| "milestones (SetProgress v # calls) = Reported v # milestones calls"
| "milestones (c # calls) = milestones calls"

text \<open>The placement and the report of the images in turn, numbered from \<open>k\<close> on.\<close>

definition placedAndReported :: "nat \<Rightarrow> nat \<Rightarrow> 'f ImageFile list \<Rightarrow> Milestone list" where
  "placedAndReported n k imgs =
     concat (map (\<lambda>(j, img). [Placed (preview img), Reported (real j / real n * 100)])
                 (zip [Suc k..<Suc (k + length imgs)] imgs))"

text \<open>
  The page the specification expects for one image: of the chosen format, holding the
  rotated image alone, at the rectangle \<open>computePlacement\<close> gives for its intrinsic size.
\<close>

definition expectedPage :: "Browser \<Rightarrow> PageSize \<Rightarrow> real \<Rightarrow> 'f ImageFile \<Rightarrow> Page" where
  "expectedPage env selectedPageSize marginSize img =
     (case loadImage env (preview img) of
        None \<Rightarrow> \<lparr>pageFormat = (width selectedPageSize, height selectedPageSize), content = []\<rparr>
      | Some (img_width, img_height) \<Rightarrow>
          (let p = computePlacement img_width img_height (rotation img)
                     (width selectedPageSize) (height selectedPageSize) marginSize
           in \<lparr>pageFormat = (width selectedPageSize, height selectedPageSize),
               content =
                 [\<lparr>imgData = \<lparr>source = preview img, angle = rotation img,
                               canvasWidth = rotatedWidth p, canvasHeight = rotatedHeight p\<rparr>,
                   atX = offsetX p, atY = offsetY p,
                   drawnWidth = scaledWidth p, drawnHeight = scaledHeight p\<rparr>]\<rparr>))"

text \<open>Two browsers for concrete runs: every image loads with one size, and the canvas
  context is missing in exactly one iteration, or in none.\<close>

definition contextExceptAt :: "nat \<Rightarrow> nat \<Rightarrow> bool" where
  "contextExceptAt k i = (i \<noteq> k)"

definition contextAlways :: "nat \<Rightarrow> bool" where
  "contextAlways i = True"

definition loadsAs :: "real \<Rightarrow> real \<Rightarrow> string \<Rightarrow> (real \<times> real) option" where
  "loadsAs w h url = Some (w, h)"

section \<open>Geometry of a placement\<close>

lemma rotated_dims:
  "rotatedWidth (computePlacement w h r PW PH ms) = (if r = 90 \<or> r = 270 then h else w)"
  "rotatedHeight (computePlacement w h r PW PH ms) = (if r = 90 \<or> r = 270 then w else h)"
  by (simp_all add: computePlacement_def Let_def)

lemma avail_dims:
  "availW (computePlacement w h r PW PH ms) = PW * (1 - ms / 100 * 2)"
  "availH (computePlacement w h r PW PH ms) = PH * (1 - ms / 100 * 2)"
  by (simp_all add: computePlacement_def Let_def split: prod.splits)

lemma scale_eq:
  "scale (computePlacement w h r PW PH ms) =
     min (availW (computePlacement w h r PW PH ms) / rotatedWidth (computePlacement w h r PW PH ms))
         (availH (computePlacement w h r PW PH ms) / rotatedHeight (computePlacement w h r PW PH ms))"
  by (simp add: computePlacement_def Let_def split: prod.splits)

lemma scaled_dims:
  "scaledWidth (computePlacement w h r PW PH ms) =
     rotatedWidth (computePlacement w h r PW PH ms) * scale (computePlacement w h r PW PH ms)"
  "scaledHeight (computePlacement w h r PW PH ms) =
     rotatedHeight (computePlacement w h r PW PH ms) * scale (computePlacement w h r PW PH ms)"
  by (simp_all add: computePlacement_def Let_def split: prod.splits)

text \<open>
  Claim C1. For an image of positive intrinsic width \<open>w\<close> and height \<open>h\<close>, a rotation
  among 0, 90, 180 and 270, a page of positive width \<open>PW\<close> and height \<open>PH\<close> and a margin
  percentage \<open>ms\<close> among the margin options (margin fraction \<open>m = ms / 100\<close>), the scale is
  \<open>min (PW (1 - 2m) / ew) (PH (1 - 2m) / eh)\<close> for the effective dimensions \<open>ew\<close>, \<open>eh\<close>,
  and the scaled dimensions are \<open>ew * scale\<close> and \<open>eh * scale\<close>.
\<close>

theorem computePlacement_scale:
  assumes "0 < w" and "0 < h" and "r \<in> {0, 90, 180, 270}"
    and "0 < PW" and "0 < PH" and "ms \<in> set marginOptions"
  shows "scale (computePlacement w h r PW PH ms) =
           min (PW * (1 - 2 * (ms / 100)) / (if r = 90 \<or> r = 270 then h else w))
               (PH * (1 - 2 * (ms / 100)) / (if r = 90 \<or> r = 270 then w else h))
         \<and> scaledWidth (computePlacement w h r PW PH ms) =
             (if r = 90 \<or> r = 270 then h else w) * scale (computePlacement w h r PW PH ms)
         \<and> scaledHeight (computePlacement w h r PW PH ms) =
             (if r = 90 \<or> r = 270 then w else h) * scale (computePlacement w h r PW PH ms)"
proof -
  have m: "ms / 100 * 2 = 2 * (ms / 100)" by simp
  show ?thesis
    unfolding scale_eq scaled_dims rotated_dims avail_dims m by simp
qed

theorem computePlacement_scale_witness:
  "scale (computePlacement 800 600 90 215.9 279.4 10) = 0.2794
   \<and> scaledWidth (computePlacement 800 600 90 215.9 279.4 10) = 167.64
   \<and> scaledHeight (computePlacement 800 600 90 215.9 279.4 10) = 223.52"
  using computePlacement_scale [of 800 600 90 "215.9" "279.4" 10]
  by (simp add: marginOptions_def)

text \<open>
  Claim C2. At a rotation of 90 or 270 the effective width is the intrinsic height and
  the effective height the intrinsic width; at 0 or 180 they are the intrinsic width and
  height. The scale and the scaled dimensions are computed from the effective
  dimensions.
\<close>

theorem effective_dimensions:
  "(r = 90 \<or> r = 270 \<longrightarrow>
      rotatedWidth (computePlacement w h r PW PH ms) = h
      \<and> rotatedHeight (computePlacement w h r PW PH ms) = w)
   \<and> (r = 0 \<or> r = 180 \<longrightarrow>
      rotatedWidth (computePlacement w h r PW PH ms) = w
      \<and> rotatedHeight (computePlacement w h r PW PH ms) = h)
   \<and> scale (computePlacement w h r PW PH ms) =
       min (availW (computePlacement w h r PW PH ms) / rotatedWidth (computePlacement w h r PW PH ms))
           (availH (computePlacement w h r PW PH ms) / rotatedHeight (computePlacement w h r PW PH ms))
   \<and> scaledWidth (computePlacement w h r PW PH ms) =
       rotatedWidth (computePlacement w h r PW PH ms) * scale (computePlacement w h r PW PH ms)
   \<and> scaledHeight (computePlacement w h r PW PH ms) =
       rotatedHeight (computePlacement w h r PW PH ms) * scale (computePlacement w h r PW PH ms)"
  using scale_eq [of w h r PW PH ms] scaled_dims [of w h r PW PH ms]
  by (simp add: rotated_dims)

theorem effective_dimensions_witness:
  "rotatedWidth (computePlacement 800 600 270 215.9 279.4 10) = 600
   \<and> rotatedHeight (computePlacement 800 600 270 215.9 279.4 10) = 800
   \<and> rotatedWidth (computePlacement 800 600 180 215.9 279.4 10) = 800
   \<and> rotatedHeight (computePlacement 800 600 180 215.9 279.4 10) = 600"
  using effective_dimensions [of 270 800 600 "215.9" "279.4" 10]
    effective_dimensions [of 180 800 600 "215.9" "279.4" 10]
  by simp

text \<open>
  Claim C8. An 800 by 600 image, not rotated, on Letter pages (215.9 by 279.4 mm) with
  a margin of 10 percent: the available area is 172.72 by 223.52, the effective
  dimensions are 800 by 600, the scale is 0.2159, the scaled dimensions are 172.72 by
  129.54 and the offsets are 21.59 and 74.93, in exact arithmetic.
\<close>

theorem letter_scenario:
  "map_option width (pageSizes ''letter'') = Some 215.9
   \<and> map_option height (pageSizes ''letter'') = Some 279.4
   \<and> computePlacement 800 600 0 215.9 279.4 10 =
       \<lparr>rotatedWidth = 800, rotatedHeight = 600, availW = 172.72, availH = 223.52,
        scale = 0.2159, scaledWidth = 172.72, scaledHeight = 129.54,
        offsetX = 21.59, offsetY = 74.93\<rparr>"
  by (simp add: pageSizes_def computePlacement_def Let_def)

section \<open>Rounding to a double\<close>

text \<open>The exponent is the right one, and the rounded value is within half a unit in the
  last place: a relative error of at most \<open>2 ^ - 53\<close>.\<close>

lemma rne_error: "\<bar>of_int (rne q) - q\<bar> \<le> 1 / 2"
  unfolding rne_def Let_def by (auto simp: abs_if) linarith+

lemma expo_lower:
  assumes "0 < x"
  shows "2 powi (expo x) \<le> x"
proof (cases "1 \<le> x")
  case True
  define m where "m = \<lfloor>x\<rfloor>"
  from True have m: "0 < m" by (simp add: m_def)
  from bitlen_bounds [OF m] have "2 ^ nat (bitlen m - 1) \<le> m" ..
  then have "(2::real) ^ nat (bitlen m - 1) \<le> of_int m"
    by (metis of_int_le_iff of_int_numeral of_int_power)
  also have "of_int m \<le> x" by (simp add: m_def)
  finally have le: "(2::real) ^ nat (bitlen m - 1) \<le> x" .
  from m have "1 \<le> bitlen m" by (simp add: bitlen_alt_def)
  then have "(2::real) powi (bitlen m - 1) = 2 ^ nat (bitlen m - 1)"
    by (simp add: power_int_def)
  with le True show ?thesis by (simp add: expo_def m_def)
next
  case False
  define a where "a = \<lceil>1 / x\<rceil> - 1"
  from False assms have "1 < 1 / x" by simp
  then have a: "0 < a" unfolding a_def by linarith
  from bitlen_bounds [OF a] have "a < 2 ^ nat (bitlen a)" ..
  then have "\<lceil>1 / x\<rceil> \<le> 2 ^ nat (bitlen a)" by (simp add: a_def)
  then have "of_int \<lceil>1 / x\<rceil> \<le> (2::real) ^ nat (bitlen a)"
    by (metis of_int_le_iff of_int_numeral of_int_power)
  moreover have "1 / x \<le> of_int \<lceil>1 / x\<rceil>" by (rule le_of_int_ceiling)
  ultimately have "1 / x \<le> 2 ^ nat (bitlen a)" by linarith
  with assms have "1 / 2 ^ nat (bitlen a) \<le> x"
    by (simp add: field_simps)
  moreover have "(2::real) powi (- bitlen a) = 1 / 2 ^ nat (bitlen a)"
    using bitlen_nonneg [of a] by (simp add: power_int_minus power_int_def field_simps)
  ultimately show ?thesis using False by (simp add: expo_def a_def)
qed

lemma expo_upper:
  assumes "0 < x"
  shows "x < 2 powi (expo x + 1)"
proof (cases "1 \<le> x")
  case True
  define m where "m = \<lfloor>x\<rfloor>"
  from True have m: "0 < m" by (simp add: m_def)
  from bitlen_bounds [OF m] have "m < 2 ^ nat (bitlen m)" ..
  then have "m + 1 \<le> 2 ^ nat (bitlen m)" by simp
  then have "of_int (m + 1) \<le> (2::real) ^ nat (bitlen m)"
    by (metis of_int_le_iff of_int_numeral of_int_power)
  moreover have "x < of_int (m + 1)" unfolding m_def by linarith
  ultimately have "x < 2 ^ nat (bitlen m)" by linarith
  moreover have "(2::real) powi (bitlen m) = 2 ^ nat (bitlen m)"
    using bitlen_nonneg [of m] by (simp add: power_int_def)
  ultimately show ?thesis using True by (simp add: expo_def m_def)
next
  case False
  define a where "a = \<lceil>1 / x\<rceil> - 1"
  from False assms have "1 < 1 / x" by simp
  then have a: "0 < a" unfolding a_def by linarith
  from a have b: "1 \<le> bitlen a" by (simp add: bitlen_alt_def)
  from bitlen_bounds [OF a] have "2 ^ nat (bitlen a - 1) \<le> a" ..
  then have "(2::real) ^ nat (bitlen a - 1) \<le> of_int a"
    by (metis of_int_le_iff of_int_numeral of_int_power)
  moreover have "of_int a < 1 / x" unfolding a_def by linarith
  ultimately have "2 ^ nat (bitlen a - 1) < 1 / x" by linarith
  with assms have "x < 1 / 2 ^ nat (bitlen a - 1)"
    by (simp add: field_simps)
  moreover have "(2::real) powi (- bitlen a + 1) = 1 / 2 ^ nat (bitlen a - 1)"
  proof -
    have "(2::real) powi (- bitlen a + 1) = 2 powi (- (bitlen a - 1))" by simp
    also have "\<dots> = inverse (2 powi (bitlen a - 1))" by (rule power_int_minus)
    also have "\<dots> = 1 / 2 ^ nat (bitlen a - 1)"
      using b by (simp add: power_int_def field_simps)
    finally show ?thesis .
  qed
  ultimately show ?thesis using False by (simp add: expo_def a_def)
qed

lemma round64_error: "\<bar>round64 x - x\<bar> \<le> \<bar>x\<bar> / 2 ^ 53"
proof (cases "x = 0")
  case True
  then show ?thesis by (simp add: round64_def)
next
  case False
  define a where "a = \<bar>x\<bar>"
  define s where "s = (2::real) powi (expo a - 52)"
  define n where "n = rne (a / s)"
  from False have a: "0 < a" by (simp add: a_def)
  have s: "0 < s" by (simp add: s_def)
  have s52: "s = 2 powi (expo a) / 2 ^ 52"
    unfolding s_def by (simp add: power_int_diff)
  have "\<bar>of_int n - a / s\<bar> \<le> 1 / 2" unfolding n_def by (rule rne_error)
  then have "\<bar>of_int n - a / s\<bar> * s \<le> 1 / 2 * s"
    using s by (simp add: mult_right_mono)
  moreover have "\<bar>of_int n - a / s\<bar> * s = \<bar>of_int n * s - a\<bar>"
  proof -
    have "\<bar>of_int n - a / s\<bar> * s = \<bar>(of_int n - a / s) * s\<bar>"
      using s by (simp add: abs_mult)
    also have "(of_int n - a / s) * s = of_int n * s - a"
      using s by (simp add: field_simps)
    finally show ?thesis .
  qed
  ultimately have "\<bar>of_int n * s - a\<bar> \<le> s / 2" by simp
  also have "s / 2 = 2 powi (expo a) / 2 ^ 53" by (simp add: s52)
  also have "\<dots> \<le> a / 2 ^ 53"
    using expo_lower [OF a] by (simp add: divide_right_mono)
  finally have err: "\<bar>of_int n * s - a\<bar> \<le> a / 2 ^ 53" .
  have r: "round64 x = sgn x * (of_int n * s)"
    using False by (simp add: round64_def n_def s_def a_def)
  have "x = sgn x * a" by (simp add: a_def sgn_if)
  then have "round64 x - x = sgn x * (of_int n * s - a)"
    unfolding r by (simp add: algebra_simps)
  then have "\<bar>round64 x - x\<bar> = \<bar>of_int n * s - a\<bar>"
    using False by (simp add: abs_mult sgn_if)
  with err show ?thesis by (simp add: a_def)
qed

lemma round64_pos_bounds:
  assumes "0 < x"
  shows "x * (1 - 1 / 2 ^ 53) \<le> round64 x" and "round64 x \<le> x * (1 + 1 / 2 ^ 53)"
    and "0 < round64 x"
proof -
  from round64_error [of x] assms have e: "\<bar>round64 x - x\<bar> \<le> x / 2 ^ 53" by simp
  have lower: "x * (1 - 1 / 2 ^ 53) = x - x / 2 ^ 53"
    and upper: "x * (1 + 1 / 2 ^ 53) = x + x / 2 ^ 53"
    by (simp_all add: algebra_simps)
  from e show lo: "x * (1 - 1 / 2 ^ 53) \<le> round64 x" unfolding lower by linarith
  from e show "round64 x \<le> x * (1 + 1 / 2 ^ 53)" unfolding upper by linarith
  have "0 < x * (1 - 1 / 2 ^ 53)" using assms by simp
  with lo show "0 < round64 x" by linarith
qed

lemma round64_abs_le: "\<bar>round64 x\<bar> \<le> \<bar>x\<bar> * (1 + 1 / 2 ^ 53)"
proof -
  have "\<bar>round64 x\<bar> \<le> \<bar>round64 x - x\<bar> + \<bar>x\<bar>" by linarith
  also have "\<dots> \<le> \<bar>x\<bar> / 2 ^ 53 + \<bar>x\<bar>" using round64_error [of x] by linarith
  also have "\<dots> = \<bar>x\<bar> * (1 + 1 / 2 ^ 53)" by (simp add: algebra_simps)
  finally show ?thesis .
qed

text \<open>Halving a rounded difference, as the offsets do.\<close>

lemma half_diff_error: "\<bar>round64 (round64 d / 2) - d / 2\<bar> \<le> \<bar>d\<bar> / 2 ^ 52"
proof -
  define d1 where "d1 = round64 d"
  define E where "E = \<bar>d\<bar> / 2 ^ 53"
  have E: "0 \<le> E" by (simp add: E_def)
  have e1: "\<bar>d1 - d\<bar> \<le> E" unfolding d1_def E_def by (rule round64_error)
  then have d1: "\<bar>d1\<bar> \<le> \<bar>d\<bar> + E" by linarith
  have "\<bar>round64 (d1 / 2) - d1 / 2\<bar> \<le> \<bar>d1 / 2\<bar> / 2 ^ 53" by (rule round64_error)
  also have "\<dots> = \<bar>d1\<bar> / 2 ^ 54" by simp
  also have "\<dots> \<le> (\<bar>d\<bar> + E) / 2 ^ 54" using d1 by (simp add: divide_right_mono)
  also have "\<dots> = E / 2 + E / 2 ^ 54" by (simp add: E_def field_simps)
  finally have e2: "\<bar>round64 (d1 / 2) - d1 / 2\<bar> \<le> E / 2 + E / 2 ^ 54" .
  have "E / 2 ^ 54 \<le> E / 2" using E by (simp add: field_simps)
  with e1 e2 have "\<bar>round64 (d1 / 2) - d / 2\<bar> \<le> 2 * E" by linarith
  also have "2 * E = \<bar>d\<bar> / 2 ^ 52" by (simp add: E_def)
  finally show ?thesis by (simp add: d1_def)
qed

text \<open>The available side is positive for a margin of at most 20 percent.\<close>

lemma avail_pos:
  assumes P: "0 < P" and ms: "0 \<le> ms" "ms \<le> 20"
  shows "0 < round64 (P * round64 (1 - round64 (round64 (ms / 100) * 2)))"
proof -
  define mf where "mf = round64 (ms / 100)"
  have "\<bar>mf\<bar> \<le> \<bar>ms / 100\<bar> * (1 + 1 / 2 ^ 53)"
    unfolding mf_def by (rule round64_abs_le)
  also have "\<dots> \<le> (1 / 5) * (1 + 1 / 2 ^ 53)"
    using ms by (intro mult_right_mono) simp_all
  finally have mf: "\<bar>mf\<bar> \<le> (1 / 5) * (1 + 1 / 2 ^ 53)" .
  have "\<bar>round64 (mf * 2)\<bar> \<le> \<bar>mf * 2\<bar> * (1 + 1 / 2 ^ 53)" by (rule round64_abs_le)
  also have "\<dots> \<le> ((1 / 5) * (1 + 1 / 2 ^ 53) * 2) * (1 + 1 / 2 ^ 53)"
    using mf by (intro mult_right_mono) simp_all
  also have "\<dots> \<le> 1 / 2" by simp
  finally have "\<bar>round64 (mf * 2)\<bar> \<le> 1 / 2" .
  then have "0 < 1 - round64 (mf * 2)" by linarith
  then have "0 < round64 (1 - round64 (mf * 2))" by (rule round64_pos_bounds(3))
  with P have "0 < P * round64 (1 - round64 (mf * 2))" by simp
  then show ?thesis unfolding mf_def by (rule round64_pos_bounds(3))
qed

text \<open>A side times a quotient by that side, both rounded: two rounding errors.\<close>

lemma fit_upper:
  assumes A: "0 < A" and e: "0 < e" and q: "0 < q" "q \<le> round64 (A / e)"
  shows "round64 (e * q) \<le> A * (1 + 1 / 2 ^ 53) ^ 2"
proof -
  from A e have "0 < A / e" by simp
  from round64_pos_bounds(2) [OF this] q(2) have "q \<le> A / e * (1 + 1 / 2 ^ 53)" by linarith
  with e have "e * q \<le> e * (A / e * (1 + 1 / 2 ^ 53))" by (simp only: mult_left_mono less_imp_le)
  also from e have "\<dots> = A * (1 + 1 / 2 ^ 53)" by simp
  finally have eq: "e * q \<le> A * (1 + 1 / 2 ^ 53)" .
  from e q(1) have "0 < e * q" by simp
  from round64_pos_bounds(2) [OF this] have "round64 (e * q) \<le> e * q * (1 + 1 / 2 ^ 53)" .
  also from eq have "\<dots> \<le> A * (1 + 1 / 2 ^ 53) * (1 + 1 / 2 ^ 53)"
    by (intro mult_right_mono) simp_all
  also have "\<dots> = A * (1 + 1 / 2 ^ 53) ^ 2" by (simp add: power2_eq_square)
  finally show ?thesis .
qed

lemma fit_lower:
  assumes A: "0 < A" and e: "0 < e"
  shows "A * (1 - 1 / 2 ^ 53) ^ 2 \<le> round64 (e * round64 (A / e))"
proof -
  from A e have pos: "0 < A / e" by simp
  from round64_pos_bounds(1) [OF pos] have "A / e * (1 - 1 / 2 ^ 53) \<le> round64 (A / e)" .
  with e have "e * (A / e * (1 - 1 / 2 ^ 53)) \<le> e * round64 (A / e)"
    by (simp only: mult_left_mono less_imp_le)
  moreover from e have "e * (A / e * (1 - 1 / 2 ^ 53)) = A * (1 - 1 / 2 ^ 53)" by simp
  ultimately have lo: "A * (1 - 1 / 2 ^ 53) \<le> e * round64 (A / e)" by simp
  from e round64_pos_bounds(3) [OF pos] have "0 < e * round64 (A / e)" by simp
  from round64_pos_bounds(1) [OF this]
  have "e * round64 (A / e) * (1 - 1 / 2 ^ 53) \<le> round64 (e * round64 (A / e))" .
  moreover from lo
  have "A * (1 - 1 / 2 ^ 53) * (1 - 1 / 2 ^ 53) \<le> e * round64 (A / e) * (1 - 1 / 2 ^ 53)"
    by (intro mult_right_mono) simp_all
  moreover have "A * (1 - 1 / 2 ^ 53) * (1 - 1 / 2 ^ 53) = A * (1 - 1 / 2 ^ 53) ^ 2"
    by (simp add: power2_eq_square)
  ultimately show ?thesis by linarith
qed

section \<open>Geometry of a placement in double precision\<close>

lemma rotated64:
  "rotatedWidth (computePlacement64 w h r PW PH ms) = (if r = 90 \<or> r = 270 then h else w)"
  "rotatedHeight (computePlacement64 w h r PW PH ms) = (if r = 90 \<or> r = 270 then w else h)"
  by (simp_all add: computePlacement64_def Let_def)

lemma avail64:
  "availW (computePlacement64 w h r PW PH ms)
     = round64 (PW * round64 (1 - round64 (round64 (ms / 100) * 2)))"
  "availH (computePlacement64 w h r PW PH ms)
     = round64 (PH * round64 (1 - round64 (round64 (ms / 100) * 2)))"
  by (simp_all add: computePlacement64_def Let_def split: prod.splits)

lemma scale64:
  "scale (computePlacement64 w h r PW PH ms) =
     min (round64 (availW (computePlacement64 w h r PW PH ms)
                   / rotatedWidth (computePlacement64 w h r PW PH ms)))
         (round64 (availH (computePlacement64 w h r PW PH ms)
                   / rotatedHeight (computePlacement64 w h r PW PH ms)))"
  by (simp add: computePlacement64_def Let_def split: prod.splits)

lemma scaled64:
  "scaledWidth (computePlacement64 w h r PW PH ms) =
     round64 (rotatedWidth (computePlacement64 w h r PW PH ms)
              * scale (computePlacement64 w h r PW PH ms))"
  "scaledHeight (computePlacement64 w h r PW PH ms) =
     round64 (rotatedHeight (computePlacement64 w h r PW PH ms)
              * scale (computePlacement64 w h r PW PH ms))"
  by (simp_all add: computePlacement64_def Let_def split: prod.splits)

lemma offsets64:
  "offsetX (computePlacement64 w h r PW PH ms) =
     round64 (round64 (PW - scaledWidth (computePlacement64 w h r PW PH ms)) / 2)"
  "offsetY (computePlacement64 w h r PW PH ms) =
     round64 (round64 (PH - scaledHeight (computePlacement64 w h r PW PH ms)) / 2)"
  by (simp_all add: computePlacement64_def Let_def split: prod.splits)

text \<open>
  Claim C3, as amended. For doubles \<open>w\<close>, \<open>h\<close> between 1 and \<open>2 ^ 32\<close>, doubles \<open>PW\<close>, \<open>PH\<close>
  between 1 and 10000, a rotation among 0, 90, 180 and 270 and a margin among the margin
  options, the offsets are \<open>x = (PW - sw) / 2\<close> and \<open>y = (PH - sh) / 2\<close> as the doubles
  compute them, each operation rounded, and the scaled image is centred on the page up to
  rounding: \<open>x + sw / 2\<close> differs from \<open>PW / 2\<close> by at most \<open>\<bar>PW - sw\<bar> / 2 ^ 52\<close>, and
  \<open>y + sh / 2\<close> from \<open>PH / 2\<close> by at most \<open>\<bar>PH - sh\<bar> / 2 ^ 52\<close>.
\<close>

theorem placement_centred_binary64:
  assumes "1 \<le> w" and "w \<le> 2 ^ 32" and "round64 w = w"
    and "1 \<le> h" and "h \<le> 2 ^ 32" and "round64 h = h"
    and "1 \<le> PW" and "PW \<le> 10000" and "round64 PW = PW"
    and "1 \<le> PH" and "PH \<le> 10000" and "round64 PH = PH"
    and "r \<in> {0, 90, 180, 270}" and "ms \<in> set marginOptions"
  shows "offsetX (computePlacement64 w h r PW PH ms)
           = round64 (round64 (PW - scaledWidth (computePlacement64 w h r PW PH ms)) / 2)
         \<and> offsetY (computePlacement64 w h r PW PH ms)
           = round64 (round64 (PH - scaledHeight (computePlacement64 w h r PW PH ms)) / 2)
         \<and> \<bar>offsetX (computePlacement64 w h r PW PH ms)
              + scaledWidth (computePlacement64 w h r PW PH ms) / 2 - PW / 2\<bar>
             \<le> \<bar>PW - scaledWidth (computePlacement64 w h r PW PH ms)\<bar> / 2 ^ 52
         \<and> \<bar>offsetY (computePlacement64 w h r PW PH ms)
              + scaledHeight (computePlacement64 w h r PW PH ms) / 2 - PH / 2\<bar>
             \<le> \<bar>PH - scaledHeight (computePlacement64 w h r PW PH ms)\<bar> / 2 ^ 52"
proof -
  have centre: "\<bar>round64 (round64 (P - s) / 2) + s / 2 - P / 2\<bar> \<le> \<bar>P - s\<bar> / 2 ^ 52" for P s
  proof -
    have "round64 (round64 (P - s) / 2) + s / 2 - P / 2
          = round64 (round64 (P - s) / 2) - (P - s) / 2"
      by (simp add: diff_divide_distrib)
    then show ?thesis by (simp only: half_diff_error)
  qed
  show ?thesis
    using centre [of PW "scaledWidth (computePlacement64 w h r PW PH ms)"]
      centre [of PH "scaledHeight (computePlacement64 w h r PW PH ms)"]
    by (simp only: offsets64 simp_thms)
qed

theorem placement_centred_binary64_witness:
  "\<bar>offsetX (computePlacement64 800 600 90 210 297 10) + scaledWidth (computePlacement64 800 600 90 210 297 10) / 2 - 210 / 2\<bar>
     \<le> \<bar>210 - scaledWidth (computePlacement64 800 600 90 210 297 10)\<bar> / 2 ^ 52
   \<and> \<bar>offsetY (computePlacement64 800 600 90 210 297 10) + scaledHeight (computePlacement64 800 600 90 210 297 10) / 2 - 297 / 2\<bar>
     \<le> \<bar>297 - scaledHeight (computePlacement64 800 600 90 210 297 10)\<bar> / 2 ^ 52"
proof -
  have doubles: "round64 800 = 800" "round64 600 = 600" "round64 210 = 210" "round64 297 = 297"
    by (simp_all add: round64_def expo_def compute_bitlen rne_def Let_def)
  have margin: "(10::real) \<in> set marginOptions" by (simp add: marginOptions_def)
  have "1 \<le> (800::real)" and "(800::real) \<le> 2 ^ 32" and "1 \<le> (600::real)"
    and "(600::real) \<le> 2 ^ 32" and "1 \<le> (210::real)" and "(210::real) \<le> 10000"
    and "1 \<le> (297::real)" and "(297::real) \<le> 10000" and "(90::int) \<in> {0, 90, 180, 270}"
    by simp_all
  from placement_centred_binary64 [OF this(1,2) doubles(1) this(3,4) doubles(2)
      this(5,6) doubles(3) this(7,8) doubles(4) this(9) margin]
  show ?thesis by blast
qed

text \<open>
  Claim C3 as stated fails on the doubles: for a 600 by 2400 image on Letter pages with a
  margin of 5 percent, \<open>x + sw / 2\<close> is not \<open>PW / 2\<close>, whether the sum is taken exactly or
  rounded (it is 107.95000000000002 against 107.95).
\<close>

theorem centring_not_exact:
  "offsetX (computePlacement64 600 2400 0 (round64 215.9) (round64 279.4) 5) + scaledWidth (computePlacement64 600 2400 0 (round64 215.9) (round64 279.4) 5) / 2 \<noteq> round64 215.9 / 2
   \<and> round64 (offsetX (computePlacement64 600 2400 0 (round64 215.9) (round64 279.4) 5) + round64 (scaledWidth (computePlacement64 600 2400 0 (round64 215.9) (round64 279.4) 5) / 2)) \<noteq> round64 (round64 215.9 / 2)"
proof -
  have letter: "round64 215.9 = (7596305933978829 / 2 ^ 45)" "round64 279.4 = (2457628390404915 / 2 ^ 43)"
    by (simp_all add: round64_def expo_def compute_bitlen rne_def Let_def)
  have s1: "round64 (5 / 100) = (3602879701896397 / 2 ^ 56)"
    by (simp add: round64_def expo_def compute_bitlen rne_def Let_def)
  have s2: "round64 ((3602879701896397 / 2 ^ 56) * 2) = (3602879701896397 / 2 ^ 55)"
    by (simp add: round64_def expo_def compute_bitlen rne_def Let_def)
  have s3: "round64 (1 - (3602879701896397 / 2 ^ 55)) = (8106479329266893 / 2 ^ 53)"
    by (simp add: round64_def expo_def compute_bitlen rne_def Let_def)
  have s4: "round64 ((7596305933978829 / 2 ^ 45) * (8106479329266893 / 2 ^ 53)) = (3418337670290473 / 2 ^ 44)"
    by (simp add: round64_def expo_def compute_bitlen rne_def Let_def)
  have s5: "round64 ((2457628390404915 / 2 ^ 43) * (8106479329266893 / 2 ^ 53)) = (4423731102728847 / 2 ^ 44)"
    by (simp add: round64_def expo_def compute_bitlen rne_def Let_def)
  have s6: "round64 ((3418337670290473 / 2 ^ 44) / 600) = (5833962957295741 / 2 ^ 54)"
    by (simp add: round64_def expo_def compute_bitlen rne_def Let_def)
  have s7: "round64 ((4423731102728847 / 2 ^ 44) / 2400) = (7549834415323899 / 2 ^ 56)"
    by (simp add: round64_def expo_def compute_bitlen rne_def Let_def)
  have smin: "min (5833962957295741 / 2 ^ 54) (7549834415323899 / 2 ^ 56) = ((7549834415323899 / 2 ^ 56)::real)" by simp
  have s8: "round64 (600 * (7549834415323899 / 2 ^ 56)) = (4423731102728847 / 2 ^ 46)"
    by (simp add: round64_def expo_def compute_bitlen rne_def Let_def)
  have s9: "round64 (2400 * (7549834415323899 / 2 ^ 56)) = (4423731102728847 / 2 ^ 44)"
    by (simp add: round64_def expo_def compute_bitlen rne_def Let_def)
  have s10: "round64 ((7596305933978829 / 2 ^ 45) - (4423731102728847 / 2 ^ 46)) = (2692220191307203 / 2 ^ 44)"
    by (simp add: round64_def expo_def compute_bitlen rne_def Let_def)
  have s11: "round64 ((2692220191307203 / 2 ^ 44) / 2) = (2692220191307203 / 2 ^ 45)"
    by (simp add: round64_def expo_def compute_bitlen rne_def Let_def)
  have s12: "round64 ((2457628390404915 / 2 ^ 43) - (4423731102728847 / 2 ^ 44)) = (491525678080983 / 2 ^ 44)"
    by (simp add: round64_def expo_def compute_bitlen rne_def Let_def)
  have s13: "round64 ((491525678080983 / 2 ^ 44) / 2) = (491525678080983 / 2 ^ 45)"
    by (simp add: round64_def expo_def compute_bitlen rne_def Let_def)
  have srw: "rotatedWidth (computePlacement64 600 2400 0 (7596305933978829 / 2 ^ 45) (2457628390404915 / 2 ^ 43) 5) = 600" by (simp add: rotated64)
  have srh: "rotatedHeight (computePlacement64 600 2400 0 (7596305933978829 / 2 ^ 45) (2457628390404915 / 2 ^ 43) 5) = 2400" by (simp add: rotated64)
  have saw: "availW (computePlacement64 600 2400 0 (7596305933978829 / 2 ^ 45) (2457628390404915 / 2 ^ 43) 5) = (3418337670290473 / 2 ^ 44)"
    by (simp only: avail64 s1 s2 s3 s4)
  have sah: "availH (computePlacement64 600 2400 0 (7596305933978829 / 2 ^ 45) (2457628390404915 / 2 ^ 43) 5) = (4423731102728847 / 2 ^ 44)"
    by (simp only: avail64 s1 s2 s3 s5)
  have ssc: "scale (computePlacement64 600 2400 0 (7596305933978829 / 2 ^ 45) (2457628390404915 / 2 ^ 43) 5) = (7549834415323899 / 2 ^ 56)"
    by (simp only: scale64 saw sah srw srh s6 s7 smin)
  have ssw: "scaledWidth (computePlacement64 600 2400 0 (7596305933978829 / 2 ^ 45) (2457628390404915 / 2 ^ 43) 5) = (4423731102728847 / 2 ^ 46)"
    by (simp only: scaled64 ssc srw s8)
  have ssh: "scaledHeight (computePlacement64 600 2400 0 (7596305933978829 / 2 ^ 45) (2457628390404915 / 2 ^ 43) 5) = (4423731102728847 / 2 ^ 44)"
    by (simp only: scaled64 ssc srh s9)
  have sox: "offsetX (computePlacement64 600 2400 0 (7596305933978829 / 2 ^ 45) (2457628390404915 / 2 ^ 43) 5) = (2692220191307203 / 2 ^ 45)"
    by (simp only: offsets64 ssw s10 s11)
  have soy: "offsetY (computePlacement64 600 2400 0 (7596305933978829 / 2 ^ 45) (2457628390404915 / 2 ^ 43) 5) = (491525678080983 / 2 ^ 45)"
    by (simp only: offsets64 ssh s12 s13)
  have h1: "round64 ((4423731102728847 / 2 ^ 46) / 2) = (4423731102728847 / 2 ^ 47)"
    by (simp add: round64_def expo_def compute_bitlen rne_def Let_def)
  have h2: "round64 ((2692220191307203 / 2 ^ 45) + (4423731102728847 / 2 ^ 47)) = (3798152966989415 / 2 ^ 45)"
    by (simp add: round64_def expo_def compute_bitlen rne_def Let_def)
  have h3: "round64 ((7596305933978829 / 2 ^ 45) / 2) = (7596305933978829 / 2 ^ 46)"
    by (simp add: round64_def expo_def compute_bitlen rne_def Let_def)
  show ?thesis
    unfolding letter sox ssw h1 h2 h3 by simp
qed

text \<open>
  Claim C4, as amended. For doubles \<open>w\<close>, \<open>h\<close> between 1 and \<open>2 ^ 32\<close>, doubles \<open>PW\<close>, \<open>PH\<close>
  between 1 and 10000, a rotation among 0, 90, 180 and 270 and a margin among the margin
  options, with \<open>ew\<close>, \<open>eh\<close> the effective dimensions and \<open>AW\<close>, \<open>AH\<close> the available area
  as the doubles compute it, the scaled sides \<open>scale * ew\<close> and \<open>scale * eh\<close> fit up to
  two roundings, \<open>scale * ew \<le> AW (1 + 2 ^ - 53) ^ 2\<close> and
  \<open>scale * eh \<le> AH (1 + 2 ^ - 53) ^ 2\<close>, and one of them is tight up to two roundings,
  \<open>AW (1 - 2 ^ - 53) ^ 2 \<le> scale * ew\<close> or \<open>AH (1 - 2 ^ - 53) ^ 2 \<le> scale * eh\<close>.
\<close>

theorem scale_fit_binary64:
  assumes "1 \<le> w" and "w \<le> 2 ^ 32" and "round64 w = w"
    and "1 \<le> h" and "h \<le> 2 ^ 32" and "round64 h = h"
    and "1 \<le> PW" and "PW \<le> 10000" and "round64 PW = PW"
    and "1 \<le> PH" and "PH \<le> 10000" and "round64 PH = PH"
    and "r \<in> {0, 90, 180, 270}" and "ms \<in> set marginOptions"
  shows "scaledWidth (computePlacement64 w h r PW PH ms)
           = round64 ((if r = 90 \<or> r = 270 then h else w) * scale (computePlacement64 w h r PW PH ms))
         \<and> scaledHeight (computePlacement64 w h r PW PH ms)
           = round64 ((if r = 90 \<or> r = 270 then w else h) * scale (computePlacement64 w h r PW PH ms))
         \<and> round64 ((if r = 90 \<or> r = 270 then h else w) * scale (computePlacement64 w h r PW PH ms))
           \<le> round64 (PW * round64 (1 - round64 (round64 (ms / 100) * 2))) * (1 + 1 / 2 ^ 53) ^ 2
         \<and> round64 ((if r = 90 \<or> r = 270 then w else h) * scale (computePlacement64 w h r PW PH ms))
           \<le> round64 (PH * round64 (1 - round64 (round64 (ms / 100) * 2))) * (1 + 1 / 2 ^ 53) ^ 2
         \<and> (round64 (PW * round64 (1 - round64 (round64 (ms / 100) * 2))) * (1 - 1 / 2 ^ 53) ^ 2
              \<le> round64 ((if r = 90 \<or> r = 270 then h else w) * scale (computePlacement64 w h r PW PH ms))
            \<or> round64 (PH * round64 (1 - round64 (round64 (ms / 100) * 2))) * (1 - 1 / 2 ^ 53) ^ 2
              \<le> round64 ((if r = 90 \<or> r = 270 then w else h) * scale (computePlacement64 w h r PW PH ms)))"
proof -
  define ew where "ew = (if r = 90 \<or> r = 270 then h else w)"
  define eh where "eh = (if r = 90 \<or> r = 270 then w else h)"
  define AW where "AW = round64 (PW * round64 (1 - round64 (round64 (ms / 100) * 2)))"
  define AH where "AH = round64 (PH * round64 (1 - round64 (round64 (ms / 100) * 2)))"
  define qa where "qa = round64 (AW / ew)"
  define qb where "qb = round64 (AH / eh)"
  from assms(14) have ms: "0 \<le> ms" "ms \<le> 20" by (auto simp: marginOptions_def)
  from assms(1,4) have ew: "0 < ew" and eh: "0 < eh" by (simp_all add: ew_def eh_def)
  from assms(7) ms have AW: "0 < AW" unfolding AW_def by (intro avail_pos) simp_all
  from assms(10) ms have AH: "0 < AH" unfolding AH_def by (intro avail_pos) simp_all
  from AW ew have qa: "0 < qa" unfolding qa_def by (intro round64_pos_bounds(3)) simp
  from AH eh have qb: "0 < qb" unfolding qb_def by (intro round64_pos_bounds(3)) simp
  have s: "scale (computePlacement64 w h r PW PH ms) = min qa qb"
    by (simp only: scale64 avail64 rotated64 qa_def qb_def AW_def AH_def ew_def eh_def)
  from qa qb have m: "0 < min qa qb" by simp
  have sw: "scaledWidth (computePlacement64 w h r PW PH ms) = round64 (ew * min qa qb)"
    by (simp only: scaled64 rotated64 s ew_def)
  have sh: "scaledHeight (computePlacement64 w h r PW PH ms) = round64 (eh * min qa qb)"
    by (simp only: scaled64 rotated64 s eh_def)
  have up_w: "round64 (ew * min qa qb) \<le> AW * (1 + 1 / 2 ^ 53) ^ 2"
    using AW ew m by (rule fit_upper) (simp add: qa_def)
  have up_h: "round64 (eh * min qa qb) \<le> AH * (1 + 1 / 2 ^ 53) ^ 2"
    using AH eh m by (rule fit_upper) (simp add: qb_def)
  have tight: "AW * (1 - 1 / 2 ^ 53) ^ 2 \<le> round64 (ew * min qa qb)
      \<or> AH * (1 - 1 / 2 ^ 53) ^ 2 \<le> round64 (eh * min qa qb)"
  proof (cases "qa \<le> qb")
    case True
    then have "min qa qb = qa" by simp
    with fit_lower [OF AW ew] show ?thesis by (simp add: qa_def)
  next
    case False
    then have "min qa qb = qb" by simp
    with fit_lower [OF AH eh] show ?thesis by (simp add: qb_def)
  qed
  from sw sh up_w up_h tight show ?thesis
    unfolding s ew_def [symmetric] eh_def [symmetric] AW_def [symmetric] AH_def [symmetric]
    by blast
qed

theorem scale_fit_binary64_witness:
  "round64 (600 * scale (computePlacement64 800 600 90 210 297 10))
     \<le> round64 (210 * round64 (1 - round64 (round64 (10 / 100) * 2))) * (1 + 1 / 2 ^ 53) ^ 2
   \<and> round64 (800 * scale (computePlacement64 800 600 90 210 297 10))
     \<le> round64 (297 * round64 (1 - round64 (round64 (10 / 100) * 2))) * (1 + 1 / 2 ^ 53) ^ 2"
proof -
  have doubles: "round64 800 = 800" "round64 600 = 600" "round64 210 = 210" "round64 297 = 297"
    by (simp_all add: round64_def expo_def compute_bitlen rne_def Let_def)
  have margin: "(10::real) \<in> set marginOptions" by (simp add: marginOptions_def)
  have "1 \<le> (800::real)" and "(800::real) \<le> 2 ^ 32" and "1 \<le> (600::real)"
    and "(600::real) \<le> 2 ^ 32" and "1 \<le> (210::real)" and "(210::real) \<le> 10000"
    and "1 \<le> (297::real)" and "(297::real) \<le> 10000" and "(90::int) \<in> {0, 90, 180, 270}"
    by simp_all
  note fit = scale_fit_binary64 [OF this(1,2) doubles(1) this(3,4) doubles(2)
      this(5,6) doubles(3) this(7,8) doubles(4) this(9) margin]
  have ew: "(if (90::int) = 90 \<or> (90::int) = 270 then (600::real) else 800) = 600"
    and eh: "(if (90::int) = 90 \<or> (90::int) = 270 then (800::real) else 600) = 800"
    by simp_all
  from fit show ?thesis unfolding ew eh by blast
qed

text \<open>
  Claim C4 as stated fails on the doubles: for an 800 by 600 image on Letter pages with
  no margin, the scaled width exceeds the available width (215.90000000000003 against
  215.9), rounded or not, and the scaled height is below the available height: the fit
  is violated and neither side is tight.
\<close>

theorem fit_not_exact:
  "availW (computePlacement64 800 600 0 (round64 215.9) (round64 279.4) 0) < scaledWidth (computePlacement64 800 600 0 (round64 215.9) (round64 279.4) 0)
   \<and> availW (computePlacement64 800 600 0 (round64 215.9) (round64 279.4) 0) < scale (computePlacement64 800 600 0 (round64 215.9) (round64 279.4) 0) * 800
   \<and> scaledHeight (computePlacement64 800 600 0 (round64 215.9) (round64 279.4) 0) < availH (computePlacement64 800 600 0 (round64 215.9) (round64 279.4) 0)
   \<and> scale (computePlacement64 800 600 0 (round64 215.9) (round64 279.4) 0) * 600 < availH (computePlacement64 800 600 0 (round64 215.9) (round64 279.4) 0)"
proof -
  have letter: "round64 215.9 = (7596305933978829 / 2 ^ 45)" "round64 279.4 = (2457628390404915 / 2 ^ 43)"
    by (simp_all add: round64_def expo_def compute_bitlen rne_def Let_def)
  have s1: "round64 (0 / 100) = 0"
    by (simp add: round64_def expo_def compute_bitlen rne_def Let_def)
  have s2: "round64 (0 * 2) = 0"
    by (simp add: round64_def expo_def compute_bitlen rne_def Let_def)
  have s3: "round64 (1 - 0) = 1"
    by (simp add: round64_def expo_def compute_bitlen rne_def Let_def)
  have s4: "round64 ((7596305933978829 / 2 ^ 45) * 1) = (7596305933978829 / 2 ^ 45)"
    by (simp add: round64_def expo_def compute_bitlen rne_def Let_def)
  have s5: "round64 ((2457628390404915 / 2 ^ 43) * 1) = (2457628390404915 / 2 ^ 43)"
    by (simp add: round64_def expo_def compute_bitlen rne_def Let_def)
  have s6: "round64 ((7596305933978829 / 2 ^ 45) / 800) = (4861635797746451 / 2 ^ 54)"
    by (simp add: round64_def expo_def compute_bitlen rne_def Let_def)
  have s7: "round64 ((2457628390404915 / 2 ^ 43) / 600) = (8388704905915443 / 2 ^ 54)"
    by (simp add: round64_def expo_def compute_bitlen rne_def Let_def)
  have smin: "min (4861635797746451 / 2 ^ 54) (8388704905915443 / 2 ^ 54) = ((4861635797746451 / 2 ^ 54)::real)" by simp
  have s8: "round64 (800 * (4861635797746451 / 2 ^ 54)) = (3798152966989415 / 2 ^ 44)"
    by (simp add: round64_def expo_def compute_bitlen rne_def Let_def)
  have s9: "round64 (600 * (4861635797746451 / 2 ^ 54)) = (2848614725242061 / 2 ^ 44)"
    by (simp add: round64_def expo_def compute_bitlen rne_def Let_def)
  have s10: "round64 ((7596305933978829 / 2 ^ 45) - (3798152966989415 / 2 ^ 44)) = (- 1 / 2 ^ 45)"
    by (simp add: round64_def expo_def compute_bitlen rne_def Let_def)
  have s11: "round64 ((- 1 / 2 ^ 45) / 2) = (- 1 / 2 ^ 46)"
    by (simp add: round64_def expo_def compute_bitlen rne_def Let_def)
  have s12: "round64 ((2457628390404915 / 2 ^ 43) - (2848614725242061 / 2 ^ 44)) = (2066642055567769 / 2 ^ 44)"
    by (simp add: round64_def expo_def compute_bitlen rne_def Let_def)
  have s13: "round64 ((2066642055567769 / 2 ^ 44) / 2) = (2066642055567769 / 2 ^ 45)"
    by (simp add: round64_def expo_def compute_bitlen rne_def Let_def)
  have srw: "rotatedWidth (computePlacement64 800 600 0 (7596305933978829 / 2 ^ 45) (2457628390404915 / 2 ^ 43) 0) = 800" by (simp add: rotated64)
  have srh: "rotatedHeight (computePlacement64 800 600 0 (7596305933978829 / 2 ^ 45) (2457628390404915 / 2 ^ 43) 0) = 600" by (simp add: rotated64)
  have saw: "availW (computePlacement64 800 600 0 (7596305933978829 / 2 ^ 45) (2457628390404915 / 2 ^ 43) 0) = (7596305933978829 / 2 ^ 45)"
    by (simp only: avail64 s1 s2 s3 s4)
  have sah: "availH (computePlacement64 800 600 0 (7596305933978829 / 2 ^ 45) (2457628390404915 / 2 ^ 43) 0) = (2457628390404915 / 2 ^ 43)"
    by (simp only: avail64 s1 s2 s3 s5)
  have ssc: "scale (computePlacement64 800 600 0 (7596305933978829 / 2 ^ 45) (2457628390404915 / 2 ^ 43) 0) = (4861635797746451 / 2 ^ 54)"
    by (simp only: scale64 saw sah srw srh s6 s7 smin)
  have ssw: "scaledWidth (computePlacement64 800 600 0 (7596305933978829 / 2 ^ 45) (2457628390404915 / 2 ^ 43) 0) = (3798152966989415 / 2 ^ 44)"
    by (simp only: scaled64 ssc srw s8)
  have ssh: "scaledHeight (computePlacement64 800 600 0 (7596305933978829 / 2 ^ 45) (2457628390404915 / 2 ^ 43) 0) = (2848614725242061 / 2 ^ 44)"
    by (simp only: scaled64 ssc srh s9)
  have sox: "offsetX (computePlacement64 800 600 0 (7596305933978829 / 2 ^ 45) (2457628390404915 / 2 ^ 43) 0) = (- 1 / 2 ^ 46)"
    by (simp only: offsets64 ssw s10 s11)
  have soy: "offsetY (computePlacement64 800 600 0 (7596305933978829 / 2 ^ 45) (2457628390404915 / 2 ^ 43) 0) = (2066642055567769 / 2 ^ 45)"
    by (simp only: offsets64 ssh s12 s13)
  show ?thesis
    unfolding letter saw sah ssc ssw ssh by simp
qed

section \<open>Rotating images in the list\<close>

lemma js_rem_quarter:
  assumes "r \<in> {0, 90, 180, 270}"
  shows "js_rem (r + 90 + 360) 360 \<in> {0, 90, 180, 270}"
    and "js_rem (r + (- 90) + 360) 360 \<in> {0, 90, 180, 270}"
  using assms by (auto simp: js_rem_def)

lemma onDrop_rotation:
  "img \<in> set (onDrop acceptedFiles prev) \<Longrightarrow> img \<in> set prev \<or> rotation img = 0"
  by (auto simp: onDrop_def)

lemma rotateImage_rotation:
  assumes "\<forall>img \<in> set images. rotation img \<in> {0, 90, 180, 270}"
    and "img \<in> set (rotateImage i direction images)"
  shows "rotation img \<in> {0, 90, 180, 270}"
proof -
  from assms(2) obtain old where old: "old \<in> set images"
    and img: "img = (if image_id old = i
                     then old\<lparr>rotation := js_rem (rotation old
                            + (if direction = clockwise then 90 else - 90) + 360) 360\<rparr>
                     else old)"
    by (auto simp: rotateImage_def Let_def)
  from assms(1) old have r: "rotation old \<in> {0, 90, 180, 270}" by blast
  show ?thesis
  proof (cases "image_id old = i")
    case False
    with img r show ?thesis by simp
  next
    case True
    show ?thesis
    proof (cases direction)
      case clockwise
      with True img js_rem_quarter(1) [OF r] show ?thesis by simp
    next
      case counterclockwise
      with True img js_rem_quarter(2) [OF r] show ?thesis by simp
    qed
  qed
qed

lemma perform_rotation:
  assumes "\<forall>img \<in> set images. rotation img \<in> {0, 90, 180, 270}"
  shows "\<forall>img \<in> set (perform images a). rotation img \<in> {0, 90, 180, 270}"
proof (cases a)
  case (Drop acceptedFiles)
  with assms show ?thesis by (auto dest: onDrop_rotation)
next
  case (Rotate i direction)
  show ?thesis
  proof
    fix img assume "img \<in> set (perform images a)"
    with Rotate have "img \<in> set (rotateImage i direction images)" by simp
    from rotateImage_rotation [OF assms this]
    show "rotation img \<in> {0, 90, 180, 270}" .
  qed
next
  case (Remove i)
  with assms show ?thesis by (simp add: removeImage_def)
next
  case ClearAll
  then show ?thesis by (simp add: clearAllImages_def)
qed

lemma performAll_rotation:
  "\<forall>img \<in> set images. rotation img \<in> {0, 90, 180, 270} \<Longrightarrow>
   \<forall>img \<in> set (performAll actions images). rotation img \<in> {0, 90, 180, 270}"
  unfolding performAll_def
proof (induction actions arbitrary: images)
  case Nil
  then show ?case by simp
next
  case (Cons a actions)
  from Cons.IH [OF perform_rotation [OF Cons.prems]] show ?case by simp
qed

text \<open>
  Claim C7. The rotation is always a multiple of 90 degrees: every record is created by
  \<open>onDrop\<close> with rotation 0, \<open>rotateImage\<close> (clockwise adds 90, counterclockwise
  subtracts 90, modulo 360) keeps every rotation of the list among 0, 90, 180 and 270,
  and so does every sequence of actions from the empty list the component starts with.
\<close>

theorem rotation_quarter_turns:
  "(\<forall>img \<in> set (onDrop acceptedFiles prev). img \<in> set prev \<or> rotation img = 0)
   \<and> ((\<forall>img \<in> set images. rotation img \<in> {0, 90, 180, 270}) \<longrightarrow>
       (\<forall>img \<in> set (rotateImage i direction images). rotation img \<in> {0, 90, 180, 270}))
   \<and> (\<forall>img \<in> set (performAll actions []). rotation img \<in> {0, 90, 180, 270})"
proof (intro conjI)
  show "\<forall>img \<in> set (onDrop acceptedFiles prev). img \<in> set prev \<or> rotation img = 0"
    by (blast dest: onDrop_rotation)
  show "(\<forall>img \<in> set images. rotation img \<in> {0, 90, 180, 270}) \<longrightarrow>
       (\<forall>img \<in> set (rotateImage i direction images). rotation img \<in> {0, 90, 180, 270})"
  proof (intro impI ballI)
    fix img
    assume "\<forall>img \<in> set images. rotation img \<in> {0, 90, 180, 270}"
      and "img \<in> set (rotateImage i direction images)"
    then show "rotation img \<in> {0, 90, 180, 270}"
      by (rule rotateImage_rotation)
  qed
  show "\<forall>img \<in> set (performAll actions []). rotation img \<in> {0, 90, 180, 270}"
    by (rule performAll_rotation) simp
qed

theorem rotation_quarter_turns_witness:
  "performAll [Drop [(''a'', (), ''blob:a'')], Rotate ''a'' counterclockwise] []
     = [\<lparr>image_id = ''a'', file_obj = (), preview = ''blob:a'', rotation = 270\<rparr>]
   \<and> rotation (hd (performAll [Drop [(''a'', (), ''blob:a'')], Rotate ''a'' counterclockwise] []))
       \<in> {0, 90, 180, 270}"
proof -
  have run: "performAll [Drop [(''a'', (), ''blob:a'')], Rotate ''a'' counterclockwise] []
     = [\<lparr>image_id = ''a'', file_obj = (), preview = ''blob:a'', rotation = 270\<rparr>]"
    by (simp add: performAll_def onDrop_def rotateImage_def js_rem_def)
  then have "hd (performAll [Drop [(''a'', (), ''blob:a'')], Rotate ''a'' counterclockwise] [])
     \<in> set (performAll [Drop [(''a'', (), ''blob:a'')], Rotate ''a'' counterclockwise] [])"
    by simp
  with rotation_quarter_turns [of "[]" "[]" "[]" "''a''" clockwise
              "[Drop [(''a'', (), ''blob:a'')], Rotate ''a'' counterclockwise]"]
  have "rotation (hd (performAll [Drop [(''a'', (), ''blob:a'')], Rotate ''a'' counterclockwise] []))
       \<in> {0, 90, 180, 270}"
    by blast
  with run show ?thesis by blast
qed

text \<open>
  Claim C10. \<open>rotateImage\<close> changes at most the rotation of the records whose identifier
  is the given one: the length of the list, the identifier, file and preview at every
  position (so the order of the records too), and every record with another identifier
  are unchanged; if no record has the identifier, the list is unchanged.
\<close>

theorem rotateImage_frame:
  "length (rotateImage i direction images) = length images
   \<and> map image_id (rotateImage i direction images) = map image_id images
   \<and> map file_obj (rotateImage i direction images) = map file_obj images
   \<and> map preview (rotateImage i direction images) = map preview images
   \<and> (\<forall>k < length images. image_id (images ! k) \<noteq> i \<longrightarrow>
        rotateImage i direction images ! k = images ! k)
   \<and> (\<forall>k < length images. rotateImage i direction images ! k =
          (images ! k)\<lparr>rotation := rotation (rotateImage i direction images ! k)\<rparr>)
   \<and> (i \<notin> image_id ` set images \<longrightarrow> rotateImage i direction images = images)"
proof (intro conjI)
  show "length (rotateImage i direction images) = length images"
    by (simp add: rotateImage_def)
  show "map image_id (rotateImage i direction images) = map image_id images"
    by (simp add: rotateImage_def Let_def)
  show "map file_obj (rotateImage i direction images) = map file_obj images"
    by (simp add: rotateImage_def Let_def)
  show "map preview (rotateImage i direction images) = map preview images"
    by (simp add: rotateImage_def Let_def)
  show "\<forall>k < length images. image_id (images ! k) \<noteq> i \<longrightarrow>
        rotateImage i direction images ! k = images ! k"
    by (simp add: rotateImage_def)
  show "\<forall>k < length images. rotateImage i direction images ! k =
          (images ! k)\<lparr>rotation := rotation (rotateImage i direction images ! k)\<rparr>"
    by (simp add: rotateImage_def Let_def)
  show "i \<notin> image_id ` set images \<longrightarrow> rotateImage i direction images = images"
  proof
    assume "i \<notin> image_id ` set images"
    then have "\<And>img. img \<in> set images \<Longrightarrow> image_id img \<noteq> i" by blast
    then show "rotateImage i direction images = images"
      unfolding rotateImage_def by (intro map_idI) simp
  qed
qed

theorem rotateImage_frame_witness:
  "rotateImage ''b'' clockwise
     [\<lparr>image_id = ''a'', file_obj = (), preview = ''blob:a'', rotation = 90\<rparr>,
      \<lparr>image_id = ''b'', file_obj = (), preview = ''blob:b'', rotation = 270\<rparr>] ! 0
   = \<lparr>image_id = ''a'', file_obj = (), preview = ''blob:a'', rotation = 90\<rparr>
   \<and> rotateImage ''c'' clockwise
     [\<lparr>image_id = ''a'', file_obj = (), preview = ''blob:a'', rotation = 90\<rparr>,
      \<lparr>image_id = ''b'', file_obj = (), preview = ''blob:b'', rotation = 270\<rparr>]
   = [\<lparr>image_id = ''a'', file_obj = (), preview = ''blob:a'', rotation = 90\<rparr>,
      \<lparr>image_id = ''b'', file_obj = (), preview = ''blob:b'', rotation = 270\<rparr>]"
  using rotateImage_frame [of "''b''" clockwise
       "[\<lparr>image_id = ''a'', file_obj = (), preview = ''blob:a'', rotation = 90\<rparr>,
         \<lparr>image_id = ''b'', file_obj = (), preview = ''blob:b'', rotation = 270\<rparr>]"]
     rotateImage_frame [of "''c''" clockwise
       "[\<lparr>image_id = ''a'', file_obj = (), preview = ''blob:a'', rotation = 90\<rparr>,
         \<lparr>image_id = ''b'', file_obj = (), preview = ''blob:b'', rotation = 270\<rparr>]"]
  by simp

section \<open>Runs of \<^verbatim>\<open>convertToPdf\<close>\<close>

text \<open>
  Claim C6. On the empty list \<open>convertToPdf\<close> returns at once: it makes no call at
  all, so it creates no document, emits no page, reports no progress and saves nothing.
\<close>

theorem convertToPdf_empty:
  "convertToPdf env pageSize marginSize [] = Finished []
   \<and> pagesOf (callsOf (convertToPdf env pageSize marginSize [])) = []
   \<and> progressOf (callsOf (convertToPdf env pageSize marginSize [])) = []"
  by (simp add: convertToPdf_def pagesOf_def)

text \<open>The document and the readings of a run, call by call.\<close>

lemma pagesOf_snoc: "pagesOf (calls @ [c]) = applyCall (pagesOf calls) c"
  by (simp add: pagesOf_def)

lemma currentPageSize_AddPage: "currentPageSize (calls @ [AddPage w h]) = (w, h)"
  by (simp add: currentPageSize_def pagesOf_snoc)

lemma progressOf_append: "progressOf (xs @ ys) = progressOf xs @ progressOf ys"
  by (induction xs rule: progressOf.induct) simp_all

lemma addedPages_append: "addedPages (xs @ ys) = addedPages xs + addedPages ys"
  by (induction xs rule: addedPages.induct) simp_all

lemma milestones_append: "milestones (xs @ ys) = milestones xs @ milestones ys"
  by (induction xs rule: milestones.induct) simp_all

text \<open>
  One iteration in which the canvas has a context and the image loads with positive
  sides: after the first, a page is appended; the image is drawn on the current page and
  the progress reported.
\<close>

lemma forLoop_Cons_later:
  assumes ctx: "getContext env i"
    and load: "loadImage env (preview img) = Some (iw, ih)"
    and pos: "0 < iw" "0 < ih"
    and i: "0 < i"
  shows "\<exists>calls'.
      forLoop env ps ms n i (img # rest) k calls
        = forLoop env ps ms n (Suc i) rest (Suc k) calls'
      \<and> pagesOf calls' = pagesOf calls @ [expectedPage env ps ms img]
      \<and> progressOf calls' = progressOf calls @ [real (Suc k) / real n * 100]
      \<and> milestones calls'
          = milestones calls @ [Placed (preview img), Reported (real (Suc k) / real n * 100)]
      \<and> addedPages calls' = Suc (addedPages calls)"
proof -
  define p where "p = computePlacement iw ih (rotation img) (width ps) (height ps) ms"
  define d where "d = \<lparr>source = preview img, angle = rotation img,
                       canvasWidth = rotatedWidth p, canvasHeight = rotatedHeight p\<rparr>"
  define calls' where "calls' = ((calls @ [AddPage (width ps) (height ps)])
      @ [AddImage d (offsetX p) (offsetY p) (scaledWidth p) (scaledHeight p)])
      @ [SetProgress (real (Suc k) / real n * 100)]"
  have step: "forLoop env ps ms n i (img # rest) k calls
        = forLoop env ps ms n (Suc i) rest (Suc k) calls'"
    using ctx load pos i
    by (simp add: Let_def currentPageSize_AddPage calls'_def d_def p_def)
  have pages: "pagesOf calls' = pagesOf calls @ [expectedPage env ps ms img]"
    unfolding calls'_def pagesOf_snoc
    by (simp add: expectedPage_def load Let_def p_def d_def)
  have prog: "progressOf calls' = progressOf calls @ [real (Suc k) / real n * 100]"
    unfolding calls'_def by (simp add: progressOf_append)
  have miles: "milestones calls'
      = milestones calls @ [Placed (preview img), Reported (real (Suc k) / real n * 100)]"
    unfolding calls'_def by (simp add: milestones_append d_def)
  have added: "addedPages calls' = Suc (addedPages calls)"
    unfolding calls'_def by (simp add: addedPages_append)
  from step pages prog miles added show ?thesis by blast
qed

lemma forLoop_Cons_first:
  assumes ctx: "getContext env 0"
    and load: "loadImage env (preview img) = Some (iw, ih)"
    and pos: "0 < iw" "0 < ih"
    and doc: "pagesOf calls = [\<lparr>pageFormat = (width ps, height ps), content = []\<rparr>]"
  shows "\<exists>calls'.
      forLoop env ps ms n 0 (img # rest) k calls
        = forLoop env ps ms n (Suc 0) rest (Suc k) calls'
      \<and> pagesOf calls' = [expectedPage env ps ms img]
      \<and> progressOf calls' = progressOf calls @ [real (Suc k) / real n * 100]
      \<and> milestones calls'
          = milestones calls @ [Placed (preview img), Reported (real (Suc k) / real n * 100)]
      \<and> addedPages calls' = addedPages calls"
proof -
  define p where "p = computePlacement iw ih (rotation img) (width ps) (height ps) ms"
  define d where "d = \<lparr>source = preview img, angle = rotation img,
                       canvasWidth = rotatedWidth p, canvasHeight = rotatedHeight p\<rparr>"
  define calls' where "calls' = (calls
      @ [AddImage d (offsetX p) (offsetY p) (scaledWidth p) (scaledHeight p)])
      @ [SetProgress (real (Suc k) / real n * 100)]"
  have size: "currentPageSize calls = (width ps, height ps)"
    by (simp add: currentPageSize_def doc)
  have step: "forLoop env ps ms n 0 (img # rest) k calls
        = forLoop env ps ms n (Suc 0) rest (Suc k) calls'"
    using ctx load pos by (simp add: Let_def size calls'_def d_def p_def)
  have pages: "pagesOf calls' = [expectedPage env ps ms img]"
    unfolding calls'_def pagesOf_snoc doc
    by (simp add: expectedPage_def load Let_def p_def d_def)
  have prog: "progressOf calls' = progressOf calls @ [real (Suc k) / real n * 100]"
    unfolding calls'_def by (simp add: progressOf_append)
  have miles: "milestones calls'
      = milestones calls @ [Placed (preview img), Reported (real (Suc k) / real n * 100)]"
    unfolding calls'_def by (simp add: milestones_append d_def)
  have added: "addedPages calls' = addedPages calls"
    unfolding calls'_def by (simp add: addedPages_append)
  from step pages prog miles added show ?thesis by blast
qed

lemma placedAndReported_Cons:
  "placedAndReported n k (img # rest)
     = Placed (preview img) # Reported (real (Suc k) / real n * 100)
       # placedAndReported n (Suc k) rest"
proof -
  have "[Suc k..<Suc (k + length (img # rest))]
      = Suc k # [Suc (Suc k)..<Suc (Suc k + length rest)]"
    by (simp add: upt_conv_Cons del: upt_Suc)
  then show ?thesis by (simp add: placedAndReported_def del: upt_Suc)
qed

text \<open>The rest of the loop, by induction on the images not yet visited.\<close>

lemma forLoop_later:
  assumes "0 < i"
    and "\<forall>j < length imgs. getContext env (i + j)"
    and "\<forall>img \<in> set imgs. \<exists>w h. loadImage env (preview img) = Some (w, h) \<and> 0 < w \<and> 0 < h"
  shows "finished (forLoop env ps ms n i imgs k calls)
    \<and> pagesOf (callsOf (forLoop env ps ms n i imgs k calls))
        = pagesOf calls @ map (expectedPage env ps ms) imgs
    \<and> progressOf (callsOf (forLoop env ps ms n i imgs k calls))
        = progressOf calls @ map (\<lambda>j. real j / real n * 100) [Suc k..<Suc (k + length imgs)]
    \<and> milestones (callsOf (forLoop env ps ms n i imgs k calls))
        = milestones calls @ placedAndReported n k imgs
    \<and> addedPages (callsOf (forLoop env ps ms n i imgs k calls))
        = addedPages calls + length imgs"
  using assms
proof (induction imgs arbitrary: i k calls)
  case Nil
  show ?case
    by (simp add: pagesOf_def progressOf_append addedPages_append milestones_append
        placedAndReported_def)
next
  case (Cons img rest)
  from Cons.prems(2) have ctx: "getContext env i" by fastforce
  from Cons.prems(3) obtain iw ih where load: "loadImage env (preview img) = Some (iw, ih)"
    and pos: "0 < iw" "0 < ih"
    by fastforce
  from forLoop_Cons_later [OF ctx load pos Cons.prems(1),
      where ps = ps and ms = ms and n = n and rest = rest and k = k and calls = calls]
  obtain calls' where step: "forLoop env ps ms n i (img # rest) k calls
        = forLoop env ps ms n (Suc i) rest (Suc k) calls'"
    and pages: "pagesOf calls' = pagesOf calls @ [expectedPage env ps ms img]"
    and prog: "progressOf calls' = progressOf calls @ [real (Suc k) / real n * 100]"
    and miles: "milestones calls'
        = milestones calls @ [Placed (preview img), Reported (real (Suc k) / real n * 100)]"
    and added: "addedPages calls' = Suc (addedPages calls)"
    by blast
  have ctx': "\<forall>j < length rest. getContext env (Suc i + j)"
  proof (intro allI impI)
    fix j assume "j < length rest"
    then have "Suc j < length (img # rest)" by simp
    with Cons.prems(2) have "getContext env (i + Suc j)" by blast
    then show "getContext env (Suc i + j)" by simp
  qed
  from Cons.prems(3)
  have load': "\<forall>img \<in> set rest. \<exists>w h. loadImage env (preview img) = Some (w, h) \<and> 0 < w \<and> 0 < h"
    by simp
  have upt: "[Suc k..<Suc (k + length (img # rest))]
      = Suc k # [Suc (Suc k)..<Suc (Suc k + length rest)]"
    by (simp add: upt_conv_Cons del: upt_Suc)
  from Cons.IH [OF _ ctx' load', where k = "Suc k" and calls = calls'] show ?case
    unfolding step upt placedAndReported_Cons
    by (simp add: pages prog miles added del: upt_Suc)
qed

text \<open>A whole run on a non-empty list, when no iteration is skipped or stalls.\<close>

lemma convertToPdf_run:
  assumes "images \<noteq> []"
    and "pageSizes pageSize = Some ps"
    and "\<forall>i < length images. getContext env i"
    and "\<forall>img \<in> set images. \<exists>w h. loadImage env (preview img) = Some (w, h) \<and> 0 < w \<and> 0 < h"
  shows "finished (convertToPdf env pageSize ms images)"
    and "pagesOf (callsOf (convertToPdf env pageSize ms images))
          = map (expectedPage env ps ms) images"
    and "progressOf (callsOf (convertToPdf env pageSize ms images))
          = 0 # map (\<lambda>k. real k / real (length images) * 100) [1..<Suc (length images)]"
    and "milestones (callsOf (convertToPdf env pageSize ms images))
          = Reported 0 # placedAndReported (length images) 0 images"
    and "addedPages (callsOf (convertToPdf env pageSize ms images)) = length images - 1"
proof -
  from assms(1) obtain img rest where images: "images = img # rest" by (cases images) auto
  define calls where
    "calls = [SetConverting True, SetProgress 0] @ [NewDocument (width ps) (height ps)]"
  have run: "convertToPdf env pageSize ms images
      = forLoop env ps ms (length images) 0 (img # rest) 0 calls"
    by (simp add: convertToPdf_def images assms(2) calls_def Let_def del: forLoop.simps)
  have doc: "pagesOf calls = [\<lparr>pageFormat = (width ps, height ps), content = []\<rparr>]"
    by (simp add: calls_def pagesOf_def)
  from assms(3) have ctx: "getContext env 0" by (simp add: images)
  from assms(4) obtain iw ih where load: "loadImage env (preview img) = Some (iw, ih)"
    and pos: "0 < iw" "0 < ih"
    by (fastforce simp: images)
  from forLoop_Cons_first [OF ctx load pos doc,
      where n = "length images" and rest = rest and k = 0]
  obtain calls' where step: "forLoop env ps ms (length images) 0 (img # rest) 0 calls
        = forLoop env ps ms (length images) (Suc 0) rest (Suc 0) calls'"
    and pages: "pagesOf calls' = [expectedPage env ps ms img]"
    and prog: "progressOf calls' = progressOf calls @ [real (Suc 0) / real (length images) * 100]"
    and miles: "milestones calls' = milestones calls
        @ [Placed (preview img), Reported (real (Suc 0) / real (length images) * 100)]"
    and added: "addedPages calls' = addedPages calls"
    by blast
  have ctx': "\<forall>j < length rest. getContext env (Suc 0 + j)"
    using assms(3) by (simp add: images)
  from assms(4)
  have load': "\<forall>img \<in> set rest. \<exists>w h. loadImage env (preview img) = Some (w, h) \<and> 0 < w \<and> 0 < h"
    by (simp add: images)
  have upt: "[1..<Suc (length images)] = Suc 0 # [Suc (Suc 0)..<Suc (Suc 0 + length rest)]"
    by (simp add: images upt_conv_Cons del: upt_Suc)
  note rest = forLoop_later [OF _ ctx' load',
      where ps = ps and ms = ms and n = "length images" and k = "Suc 0" and calls = calls']
  from rest show "finished (convertToPdf env pageSize ms images)"
    unfolding run step by simp
  from rest show "pagesOf (callsOf (convertToPdf env pageSize ms images))
          = map (expectedPage env ps ms) images"
    unfolding run step by (simp add: pages images)
  from rest show "progressOf (callsOf (convertToPdf env pageSize ms images))
          = 0 # map (\<lambda>k. real k / real (length images) * 100) [1..<Suc (length images)]"
    unfolding run step upt by (simp add: prog calls_def del: upt_Suc)
  from rest show "milestones (callsOf (convertToPdf env pageSize ms images))
          = Reported 0 # placedAndReported (length images) 0 images"
    unfolding run step
    by (simp add: miles calls_def placedAndReported_Cons [of _ 0, unfolded images [symmetric]]
        images placedAndReported_Cons)
  from rest show "addedPages (callsOf (convertToPdf env pageSize ms images)) = length images - 1"
    unfolding run step by (simp add: added calls_def images)
qed

text \<open>
  Whatever the browser does, the reports of the loop are those of the first iterations
  that placed an image: the counter goes up by one at each.
\<close>

lemma forLoop_progress:
  "\<exists>m \<le> length imgs.
     progressOf (callsOf (forLoop env ps ms n i imgs k calls))
       = progressOf calls @ map (\<lambda>j. real j / real n * 100) [Suc k..<Suc (k + m)]"
proof (induction imgs arbitrary: i k calls)
  case Nil
  show ?case by (simp add: progressOf_append)
next
  case (Cons img rest)
  show ?case
  proof (cases "getContext env i")
    case False
    from Cons.IH [of "i + 1" k calls] obtain m where "m \<le> length rest"
      and "progressOf (callsOf (forLoop env ps ms n (i + 1) rest k calls))
        = progressOf calls @ map (\<lambda>j. real j / real n * 100) [Suc k..<Suc (k + m)]"
      by blast
    with False show ?thesis by (intro exI [of _ m]) simp
  next
    case ctx: True
    show ?thesis
    proof (cases "loadImage env (preview img)")
      case None
      with ctx show ?thesis by (intro exI [of _ 0]) simp
    next
      case (Some dims)
      obtain iw ih where dims: "dims = (iw, ih)" by (cases dims)
      show ?thesis
      proof (cases "iw \<le> 0 \<or> ih \<le> 0")
        case True
        with ctx Some dims show ?thesis
          by (intro exI [of _ 0]) (simp add: Let_def progressOf_append)
      next
        case False
        define calls1 where "calls1 = (if 0 < i then calls @ [AddPage (width ps) (height ps)] else calls)"
        define p where "p = computePlacement iw ih (rotation img)
            (fst (currentPageSize calls1)) (snd (currentPageSize calls1)) ms"
        define d where "d = \<lparr>source = preview img, angle = rotation img,
                       canvasWidth = rotatedWidth p, canvasHeight = rotatedHeight p\<rparr>"
        define calls3 where "calls3 = (calls1
            @ [AddImage d (offsetX p) (offsetY p) (scaledWidth p) (scaledHeight p)])
            @ [SetProgress (real (Suc k) / real n * 100)]"
        have step: "forLoop env ps ms n i (img # rest) k calls
            = forLoop env ps ms n (i + 1) rest (Suc k) calls3"
          using ctx Some dims False
          by (simp add: Let_def calls3_def d_def p_def calls1_def split: prod.splits)
        have prog: "progressOf calls3 = progressOf calls @ [real (Suc k) / real n * 100]"
          by (simp add: calls3_def calls1_def progressOf_append)
        from Cons.IH [of "i + 1" "Suc k" calls3] obtain m where m: "m \<le> length rest"
          and eq: "progressOf (callsOf (forLoop env ps ms n (i + 1) rest (Suc k) calls3))
            = progressOf calls3 @ map (\<lambda>j. real j / real n * 100) [Suc (Suc k)..<Suc (Suc k + m)]"
          by blast
        have upt: "[Suc k..<Suc (k + Suc m)] = Suc k # [Suc (Suc k)..<Suc (Suc k + m)]"
          by (simp add: upt_conv_Cons del: upt_Suc)
        have "progressOf (callsOf (forLoop env ps ms n i (img # rest) k calls))
            = progressOf calls @ map (\<lambda>j. real j / real n * 100) [Suc k..<Suc (k + Suc m)]"
          unfolding step eq prog upt by simp
        with m show ?thesis by (intro exI [of _ "Suc m"]) simp
      qed
    qed
  qed
qed

lemma progress_values:
  assumes n: "0 < n" and m: "m \<le> n"
  shows "sorted_wrt (<) (0 # map (\<lambda>k. real k / real n * 100) [1..<Suc m])"
    and "\<forall>v \<in> set (0 # map (\<lambda>k. real k / real n * 100) [1..<Suc m]). 0 \<le> v \<and> v \<le> 100"
proof -
  have mono: "real j / real n * 100 < real k / real n * 100" if "j < k" for j k
    using that n by (simp add: divide_strict_right_mono)
  have "sorted_wrt (<) [1..<Suc m]"
    by (rule sorted_wrt_upt)
  then have "sorted_wrt (\<lambda>j k. real j / real n * 100 < real k / real n * 100) [1..<Suc m]"
    by (rule sorted_wrt_mono_rel [rotated]) (rule mono)
  then have tail: "sorted_wrt (<) (map (\<lambda>k. real k / real n * 100) [1..<Suc m])"
    by (simp only: sorted_wrt_map)
  have pos: "0 < real k / real n * 100" if "k \<in> set [1..<Suc m]" for k
  proof -
    from that have "0 < k" by (simp del: upt_Suc)
    with n show ?thesis by simp
  qed
  from tail pos show "sorted_wrt (<) (0 # map (\<lambda>k. real k / real n * 100) [1..<Suc m])"
    by (simp del: upt_Suc)
  have le: "real k / real n * 100 \<le> 100" if "k \<in> set [1..<Suc m]" for k
  proof -
    from that m have "k \<le> n" by (simp del: upt_Suc)
    with n show ?thesis by (simp add: field_simps)
  qed
  from pos le
  show "\<forall>v \<in> set (0 # map (\<lambda>k. real k / real n * 100) [1..<Suc m]). 0 \<le> v \<and> v \<le> 100"
    by (auto simp del: upt_Suc intro: less_imp_le)
qed

lemma last_progress_value:
  assumes n: "0 < n"
  shows "last (0 # map (\<lambda>k. real k / real n * 100) [1..<Suc n]) = 100"
proof -
  from n have "[1..<Suc n] = [1..<n] @ [n]" by simp
  then show ?thesis using n by simp
qed

text \<open>The reports of any run: none, the initial 0 alone, or 0 and those of the loop.\<close>

lemma reports_shape:
  "progressOf (callsOf (convertToPdf env pageSize ms images)) = []
   \<or> (\<exists>m \<le> length images. 0 < length images \<and>
        progressOf (callsOf (convertToPdf env pageSize ms images))
          = 0 # map (\<lambda>k. real k / real (length images) * 100) [1..<Suc m])"
proof (cases "images = []")
  case True
  then show ?thesis by (simp add: convertToPdf_def)
next
  case False
  then have n: "0 < length images" by simp
  show ?thesis
  proof (cases "pageSizes pageSize")
    case None
    with False have "progressOf (callsOf (convertToPdf env pageSize ms images))
        = 0 # map (\<lambda>k. real k / real (length images) * 100) [1..<Suc 0]"
      by (simp add: convertToPdf_def)
    with n show ?thesis by blast
  next
    case (Some ps)
    define calls where
      "calls = [SetConverting True, SetProgress 0] @ [NewDocument (width ps) (height ps)]"
    have run: "convertToPdf env pageSize ms images
        = forLoop env ps ms (length images) 0 images 0 calls"
      using False by (simp add: convertToPdf_def Some calls_def Let_def)
    from forLoop_progress [of images env ps ms "length images" 0 0 calls]
    obtain m where m: "m \<le> length images"
      and eq: "progressOf (callsOf (forLoop env ps ms (length images) 0 images 0 calls))
        = progressOf calls @ map (\<lambda>j. real j / real (length images) * 100) [Suc 0..<Suc (0 + m)]"
      by blast
    have "progressOf (callsOf (convertToPdf env pageSize ms images))
        = 0 # map (\<lambda>k. real k / real (length images) * 100) [1..<Suc m]"
      unfolding run eq by (simp add: calls_def del: upt_Suc)
    with m n show ?thesis by blast
  qed
qed

text \<open>
  Claim C5, as amended. For a non-empty list of \<open>n\<close> images and a page size key of the
  table, if every iteration obtains a canvas context and every image loads with positive
  width and height, the run returns and the document has exactly \<open>n\<close> pages, the \<open>i\<close>-th
  page holding the \<open>i\<close>-th image alone at its computed placement; a page is appended for
  every image but the first.
\<close>

theorem convertToPdf_pages_in_order:
  assumes "images \<noteq> []"
    and "pageSizes pageSize = Some ps"
    and "\<forall>i < length images. getContext env i"
    and "\<forall>img \<in> set images. \<exists>w h. loadImage env (preview img) = Some (w, h) \<and> 0 < w \<and> 0 < h"
  shows "finished (convertToPdf env pageSize ms images)
    \<and> pagesOf (callsOf (convertToPdf env pageSize ms images))
        = map (expectedPage env ps ms) images
    \<and> length (pagesOf (callsOf (convertToPdf env pageSize ms images))) = length images
    \<and> addedPages (callsOf (convertToPdf env pageSize ms images)) = length images - 1"
  using convertToPdf_run(1,2,5) [OF assms, of ms] by simp

theorem convertToPdf_pages_in_order_witness:
  "finished (convertToPdf \<lparr>getContext = contextAlways, loadImage = loadsAs 800 600\<rparr> ''letter'' 10
       [\<lparr>image_id = ''a'', file_obj = (), preview = ''blob:a'', rotation = 0\<rparr>,
        \<lparr>image_id = ''b'', file_obj = (), preview = ''blob:b'', rotation = 90\<rparr>])
   \<and> length (pagesOf (callsOf (convertToPdf \<lparr>getContext = contextAlways, loadImage = loadsAs 800 600\<rparr> ''letter'' 10
       [\<lparr>image_id = ''a'', file_obj = (), preview = ''blob:a'', rotation = 0\<rparr>,
        \<lparr>image_id = ''b'', file_obj = (), preview = ''blob:b'', rotation = 90\<rparr>]))) = 2
   \<and> addedPages (callsOf (convertToPdf \<lparr>getContext = contextAlways, loadImage = loadsAs 800 600\<rparr> ''letter'' 10
       [\<lparr>image_id = ''a'', file_obj = (), preview = ''blob:a'', rotation = 0\<rparr>,
        \<lparr>image_id = ''b'', file_obj = (), preview = ''blob:b'', rotation = 90\<rparr>])) = 1"
  using convertToPdf_pages_in_order
    [of "[\<lparr>image_id = ''a'', file_obj = (), preview = ''blob:a'', rotation = 0\<rparr>,
        \<lparr>image_id = ''b'', file_obj = (), preview = ''blob:b'', rotation = 90\<rparr>]"
        "''letter''" "\<lparr>name = ''Letter (8.5\" x 11\")'', width = 215.9, height = 279.4\<rparr>"
        "\<lparr>getContext = contextAlways, loadImage = loadsAs 800 600\<rparr>" 10]
  by (simp add: pageSizes_def contextAlways_def loadsAs_def)

text \<open>
  Claim C5 as stated fails where the canvas yields no context: the iteration is skipped
  (\<^verbatim>\<open>if (!ctx) continue\<close>), so of two images only the first gets a page.
\<close>

theorem convertToPdf_skips_page:
  "finished (convertToPdf \<lparr>getContext = contextExceptAt 1, loadImage = loadsAs 800 600\<rparr> ''letter'' 10
       [\<lparr>image_id = ''a'', file_obj = (), preview = ''blob:a'', rotation = 0\<rparr>,
        \<lparr>image_id = ''b'', file_obj = (), preview = ''blob:b'', rotation = 90\<rparr>])
   \<and> pagesOf (callsOf (convertToPdf \<lparr>getContext = contextExceptAt 1, loadImage = loadsAs 800 600\<rparr> ''letter'' 10
       [\<lparr>image_id = ''a'', file_obj = (), preview = ''blob:a'', rotation = 0\<rparr>,
        \<lparr>image_id = ''b'', file_obj = (), preview = ''blob:b'', rotation = 90\<rparr>]))
      = [expectedPage \<lparr>getContext = contextExceptAt 1, loadImage = loadsAs 800 600\<rparr>
           \<lparr>name = ''Letter (8.5\" x 11\")'', width = 215.9, height = 279.4\<rparr> 10
           \<lparr>image_id = ''a'', file_obj = (), preview = ''blob:a'', rotation = 0\<rparr>]
   \<and> length (pagesOf (callsOf (convertToPdf \<lparr>getContext = contextExceptAt 1, loadImage = loadsAs 800 600\<rparr> ''letter'' 10
       [\<lparr>image_id = ''a'', file_obj = (), preview = ''blob:a'', rotation = 0\<rparr>,
        \<lparr>image_id = ''b'', file_obj = (), preview = ''blob:b'', rotation = 90\<rparr>])))
      \<noteq> length [\<lparr>image_id = ''a'', file_obj = (), preview = ''blob:a'', rotation = 0\<rparr>,
        \<lparr>image_id = ''b'', file_obj = (), preview = ''blob:b'', rotation = 90\<rparr>]"
  by (simp add: convertToPdf_def pageSizes_def contextExceptAt_def loadsAs_def Let_def
      pagesOf_def currentPageSize_def expectedPage_def)

text \<open>
  Claim C9, as amended. In every run the values reported are strictly increasing and lie
  between 0 and 100. In a run over \<open>n \<ge> 1\<close> images with a page size key of the table, if
  every iteration obtains a canvas context and every image loads with positive width and
  height, the run returns and its placements and reports alternate: 0 is reported at the
  start, and the placement of the \<open>k\<close>-th image is followed at once by the report of
  \<open>k / n * 100\<close>; the value reported after the last image is 100.
\<close>

theorem convertToPdf_progress:
  "sorted_wrt (<) (progressOf (callsOf (convertToPdf env pageSize ms images)))
   \<and> (\<forall>v \<in> set (progressOf (callsOf (convertToPdf env pageSize ms images))). 0 \<le> v \<and> v \<le> 100)
   \<and> (images \<noteq> [] \<and> pageSizes pageSize \<noteq> None
       \<and> (\<forall>i < length images. getContext env i)
       \<and> (\<forall>img \<in> set images.
             \<exists>w h. loadImage env (preview img) = Some (w, h) \<and> 0 < w \<and> 0 < h)
      \<longrightarrow> finished (convertToPdf env pageSize ms images)
          \<and> milestones (callsOf (convertToPdf env pageSize ms images))
              = Reported 0 #
                concat (map (\<lambda>(k, img). [Placed (preview img),
                                          Reported (real k / real (length images) * 100)])
                            (zip [1..<Suc (length images)] images))
          \<and> last (progressOf (callsOf (convertToPdf env pageSize ms images))) = 100)"
proof (intro conjI impI)
  from reports_shape [of env pageSize ms images]
  show "sorted_wrt (<) (progressOf (callsOf (convertToPdf env pageSize ms images)))"
    using progress_values(1) by (elim disjE exE conjE) simp_all
  from reports_shape [of env pageSize ms images]
  show "\<forall>v \<in> set (progressOf (callsOf (convertToPdf env pageSize ms images))). 0 \<le> v \<and> v \<le> 100"
    using progress_values(2) by (elim disjE exE conjE) simp_all
next
  assume hyps: "images \<noteq> [] \<and> pageSizes pageSize \<noteq> None
       \<and> (\<forall>i < length images. getContext env i)
       \<and> (\<forall>img \<in> set images.
             \<exists>w h. loadImage env (preview img) = Some (w, h) \<and> 0 < w \<and> 0 < h)"
  then obtain ps where key: "pageSizes pageSize = Some ps" by blast
  from hyps have ne: "images \<noteq> []"
    and ctx: "\<forall>i < length images. getContext env i"
    and load: "\<forall>img \<in> set images. \<exists>w h. loadImage env (preview img) = Some (w, h) \<and> 0 < w \<and> 0 < h"
    by blast+
  from ne have n: "0 < length images" by simp
  note run = convertToPdf_run [OF ne key ctx load, of ms]
  from run(1) show "finished (convertToPdf env pageSize ms images)" .
  from run(4) show "milestones (callsOf (convertToPdf env pageSize ms images))
              = Reported 0 #
                concat (map (\<lambda>(k, img). [Placed (preview img),
                                          Reported (real k / real (length images) * 100)])
                            (zip [1..<Suc (length images)] images))"
    by (simp add: placedAndReported_def del: upt_Suc)
  from run(3) last_progress_value [OF n]
  show "last (progressOf (callsOf (convertToPdf env pageSize ms images))) = 100"
    by (simp only:)
qed

theorem convertToPdf_progress_witness:
  "milestones (callsOf (convertToPdf \<lparr>getContext = contextAlways, loadImage = loadsAs 800 600\<rparr> ''letter'' 10
       [\<lparr>image_id = ''a'', file_obj = (), preview = ''blob:a'', rotation = 0\<rparr>,
        \<lparr>image_id = ''b'', file_obj = (), preview = ''blob:b'', rotation = 90\<rparr>]))
     = [Reported 0, Placed ''blob:a'', Reported 50, Placed ''blob:b'', Reported 100]
   \<and> last (progressOf (callsOf (convertToPdf \<lparr>getContext = contextAlways, loadImage = loadsAs 800 600\<rparr> ''letter'' 10
       [\<lparr>image_id = ''a'', file_obj = (), preview = ''blob:a'', rotation = 0\<rparr>,
        \<lparr>image_id = ''b'', file_obj = (), preview = ''blob:b'', rotation = 90\<rparr>]))) = 100"
  using convertToPdf_progress
    [of "\<lparr>getContext = contextAlways, loadImage = loadsAs 800 600\<rparr>" "''letter''" 10
        "[\<lparr>image_id = ''a'', file_obj = (), preview = ''blob:a'', rotation = 0\<rparr>,
        \<lparr>image_id = ''b'', file_obj = (), preview = ''blob:b'', rotation = 90\<rparr>]"]
  by (simp add: pageSizes_def contextAlways_def loadsAs_def upt_conv_Cons)

text \<open>
  Claim C9 as stated fails where the canvas yields no context: a skipped iteration does
  not count, so when the first of two images is skipped the value reported after the
  second and last image is 50.
\<close>

theorem convertToPdf_progress_short:
  "finished (convertToPdf \<lparr>getContext = contextExceptAt 0, loadImage = loadsAs 800 600\<rparr> ''letter'' 10
       [\<lparr>image_id = ''a'', file_obj = (), preview = ''blob:a'', rotation = 0\<rparr>,
        \<lparr>image_id = ''b'', file_obj = (), preview = ''blob:b'', rotation = 90\<rparr>])
   \<and> progressOf (callsOf (convertToPdf \<lparr>getContext = contextExceptAt 0, loadImage = loadsAs 800 600\<rparr> ''letter'' 10
       [\<lparr>image_id = ''a'', file_obj = (), preview = ''blob:a'', rotation = 0\<rparr>,
        \<lparr>image_id = ''b'', file_obj = (), preview = ''blob:b'', rotation = 90\<rparr>])) = [0, 50]
   \<and> last (progressOf (callsOf (convertToPdf \<lparr>getContext = contextExceptAt 0, loadImage = loadsAs 800 600\<rparr> ''letter'' 10
       [\<lparr>image_id = ''a'', file_obj = (), preview = ''blob:a'', rotation = 0\<rparr>,
        \<lparr>image_id = ''b'', file_obj = (), preview = ''blob:b'', rotation = 90\<rparr>]))) \<noteq> 100"
  by (simp add: convertToPdf_def pageSizes_def contextExceptAt_def loadsAs_def Let_def
      pagesOf_def currentPageSize_def)

end
